theory Spec2Isabelle
  imports Main
begin

section \<open>Text, characters and Python errors\<close>

text \<open>
  The parsers of \<^verbatim>\<open>zyxel_ssh_api.py\<close> take the text a command printed and scrape
  it with regular expressions. A Python \<^verbatim>\<open>str\<close> is modelled as a \<open>string\<close>, a list
  of characters with the code points 0 to 255. On this range the classes of Python's
  \<^verbatim>\<open>re\<close> module for \<^verbatim>\<open>str\<close> patterns are the following.
\<close>

definition is_digit :: "char \<Rightarrow> bool" where
  \<comment> \<open>\<^verbatim>\<open>\d\<close>\<close>
  "is_digit c = (c \<in> set ''0123456789'')"

definition is_space :: "char \<Rightarrow> bool" where
  \<comment> \<open>\<^verbatim>\<open>\s\<close>, and what \<^verbatim>\<open>str.strip()\<close> removes\<close>
  "is_space c = (c \<in> set [CHR 0x09, CHR 0x0A, CHR 0x0B, CHR 0x0C, CHR 0x0D,
     CHR 0x1C, CHR 0x1D, CHR 0x1E, CHR 0x1F, CHR 0x20, CHR 0x85, CHR 0xA0])"

definition is_word :: "char \<Rightarrow> bool" where
  \<comment> \<open>\<^verbatim>\<open>\w\<close>: alphanumeric characters and the underscore\<close>
  "is_word c = (c \<in> set ''abcdefghijklmnopqrstuvwxyzABCDEFGHIJKLMNOPQRSTUVWXYZ0123456789_''
     \<or> (let n = (of_char c :: nat) in
           n \<in> set [170, 178, 179, 181, 185, 186, 188, 189, 190]
           \<or> (192 \<le> n \<and> n \<le> 214) \<or> (216 \<le> n \<and> n \<le> 246) \<or> 248 \<le> n))"

definition newline :: char where
  "newline = CHR 0x0A"

text \<open>
  The exceptions the parsing code could raise: \<^verbatim>\<open>int()\<close> on text that is no number
  or is too long a number (ValueError) or on \<^verbatim>\<open>None\<close> (TypeError), a method call on \<^verbatim>\<open>None\<close>
  (AttributeError), and \<^verbatim>\<open>//\<close> by zero; and whatever the SSH library raises.
\<close>

datatype error = ValueError | TypeError | AttributeError | ZeroDivisionError
  | SSHError  \<comment> \<open>any exception of the SSH library: transport, remote failure, timeout\<close>

definition and_then :: "error + 'a \<Rightarrow> ('a \<Rightarrow> error + 'b) \<Rightarrow> error + 'b" where
  \<comment> \<open>statement sequencing: the first exception ends the function\<close>
  "and_then x f = (case x of Inl e \<Rightarrow> Inl e | Inr v \<Rightarrow> f v)"

definition digit_val :: "char \<Rightarrow> int" where
  "digit_val c = int (of_char c) - 48"

definition dec_val :: "string \<Rightarrow> int" where
  "dec_val ds = foldl (\<lambda>a c. 10 * a + digit_val c) 0 ds"

definition max_str_digits :: nat where
  \<comment> \<open>\<^verbatim>\<open>sys.get_int_max_str_digits()\<close>: CPython (3.11 and later) refuses to convert a
      text of more decimal digits to an integer; 4300 unless the interpreter is set up
      otherwise\<close>
  "max_str_digits = 4300"

definition py_int :: "string \<Rightarrow> error + int" where
  \<comment> \<open>\<^verbatim>\<open>int(s)\<close> on an optional minus sign and decimal digits: the integer, or
      ValueError when there are more digits than the interpreter converts (leading
      zeros count, the sign does not). Python accepts a few more spellings (blanks
      around the number, a plus sign, underscores between digits); they are errors
      here, which only makes it harder for a parser to return.\<close>
  "py_int s =
     (let (neg, ds) = (case s of [] \<Rightarrow> (False, s)
                       | c # t \<Rightarrow> if c = CHR ''-'' then (True, t) else (False, s))
      in if ds \<noteq> [] \<and> list_all is_digit ds \<and> length ds \<le> max_str_digits
         then Inr (if neg then - dec_val ds else dec_val ds)
         else Inl ValueError)"

definition py_floordiv :: "int \<Rightarrow> int \<Rightarrow> error + int" where
  \<comment> \<open>\<^verbatim>\<open>a // b\<close>\<close>
  "py_floordiv a b = (if b = 0 then Inl ZeroDivisionError else Inr (a div b))"

definition strip :: "string \<Rightarrow> string" where
  \<comment> \<open>\<^verbatim>\<open>str.strip()\<close>\<close>
  "strip s = rev (dropWhile is_space (rev (dropWhile is_space s)))"

definition to_upper :: "char \<Rightarrow> char" where
  "to_upper c =
     (case map_of (zip ''abcdefghijklmnopqrstuvwxyz'' ''ABCDEFGHIJKLMNOPQRSTUVWXYZ'') c of
        Some u \<Rightarrow> u | None \<Rightarrow> c)"

definition to_lower :: "char \<Rightarrow> char" where
  "to_lower c =
     (case map_of (zip ''ABCDEFGHIJKLMNOPQRSTUVWXYZ'' ''abcdefghijklmnopqrstuvwxyz'') c of
        Some l \<Rightarrow> l | None \<Rightarrow> c)"

definition upper :: "string \<Rightarrow> string" where
  \<comment> \<open>\<^verbatim>\<open>str.upper()\<close> on ASCII letters, all the letters the MAC pattern can capture;
      other characters are kept\<close>
  "upper s = map to_upper s"

definition lower :: "string \<Rightarrow> string" where
  \<comment> \<open>\<^verbatim>\<open>str.lower()\<close> on ASCII letters; other characters are kept (no other
      character of the range lowers to a letter of \<^verbatim>\<open>yes\<close>)\<close>
  "lower s = map to_lower s"

section \<open>Regular expressions as Python's \<^verbatim>\<open>re\<close> matches them\<close>

text \<open>
  The patterns of the program use single characters and character classes, the
  quantifiers \<^verbatim>\<open>*\<close>, \<^verbatim>\<open>+\<close>, \<^verbatim>\<open>?\<close> and \<^verbatim>\<open>*?\<close> on one character or class,
  sequencing, alternation, capturing groups and \<^verbatim>\<open>$\<close>.
\<close>

datatype item = IChar char | IRange char char | IDigit

datatype atom =
    Ch char            \<comment> \<open>a literal character\<close>
  | Digit              \<comment> \<open>\<^verbatim>\<open>\d\<close>\<close>
  | Space              \<comment> \<open>\<^verbatim>\<open>\s\<close>\<close>
  | NonSpace           \<comment> \<open>\<^verbatim>\<open>\S\<close>\<close>
  | Word               \<comment> \<open>\<^verbatim>\<open>\w\<close>\<close>
  | Dot                \<comment> \<open>\<^verbatim>\<open>.\<close>: any character but the newline\<close>
  | DotAll             \<comment> \<open>\<^verbatim>\<open>.\<close> under \<^verbatim>\<open>re.DOTALL\<close>: any character\<close>
  | OneOf "item list"  \<comment> \<open>a bracket class \<^verbatim>\<open>[...]\<close>\<close>

datatype regex =
    Eps
  | Atom atom
  | Star atom          \<comment> \<open>\<^verbatim>\<open>a*\<close>, greedy\<close>
  | Plus atom          \<comment> \<open>\<^verbatim>\<open>a+\<close>, greedy\<close>
  | Opt atom           \<comment> \<open>\<^verbatim>\<open>a?\<close>, greedy\<close>
  | LazyStar atom      \<comment> \<open>\<^verbatim>\<open>a*?\<close>\<close>
  | Seq regex regex
  | Alt regex regex    \<comment> \<open>\<^verbatim>\<open>r|s\<close>, the left branch first\<close>
  | Group nat regex    \<comment> \<open>the capturing group of that number\<close>
  | Eos                \<comment> \<open>\<^verbatim>\<open>$\<close> without \<^verbatim>\<open>re.MULTILINE\<close>\<close>

fun in_item :: "item \<Rightarrow> char \<Rightarrow> bool" where
  "in_item (IChar x) c = (c = x)"
| "in_item (IRange a b) c = ((of_char a :: nat) \<le> of_char c \<and> (of_char c :: nat) \<le> of_char b)"
| "in_item IDigit c = is_digit c"

fun in_atom :: "atom \<Rightarrow> char \<Rightarrow> bool" where
  "in_atom (Ch x) c = (c = x)"
| "in_atom Digit c = is_digit c"
| "in_atom Space c = is_space c"
| "in_atom NonSpace c = (\<not> is_space c)"
| "in_atom Word c = is_word c"
| "in_atom Dot c = (c \<noteq> newline)"
| "in_atom DotAll c = True"
| "in_atom (OneOf items) c = list_ex (\<lambda>i. in_item i c) items"

fun cat :: "regex list \<Rightarrow> regex" where
  "cat [] = Eps"
| "cat (r # rs) = Seq r (cat rs)"

definition lit :: "string \<Rightarrow> regex" where
  \<comment> \<open>a run of literal characters\<close>
  "lit w = cat (map (\<lambda>c. Atom (Ch c)) w)"

type_synonym caps = "nat \<rightharpoonup> string"

text \<open>
  The matcher backtracks as Python's does: \<open>rmatch r s k\<close> lists every way \<open>r\<close> matches
  at the start of \<open>s\<close>, in the order the engine tries them, each as the text consumed,
  the text left and the groups captured (\<open>k\<close> holds the groups captured so far). The
  engine's answer is the head of the list.
\<close>

fun greedy_star :: "atom \<Rightarrow> string \<Rightarrow> (string \<times> string) list" where
  "greedy_star a [] = [([], [])]"
| "greedy_star a (c # t) =
     (if in_atom a c then map (\<lambda>(p, r). (c # p, r)) (greedy_star a t) else []) @ [([], c # t)]"

fun lazy_star :: "atom \<Rightarrow> string \<Rightarrow> (string \<times> string) list" where
  "lazy_star a [] = [([], [])]"
| "lazy_star a (c # t) =
     ([], c # t) # (if in_atom a c then map (\<lambda>(p, r). (c # p, r)) (lazy_star a t) else [])"

fun greedy_plus :: "atom \<Rightarrow> string \<Rightarrow> (string \<times> string) list" where
  "greedy_plus a [] = []"
| "greedy_plus a (c # t) =
     (if in_atom a c then map (\<lambda>(p, r). (c # p, r)) (greedy_star a t) else [])"

fun optional :: "atom \<Rightarrow> string \<Rightarrow> (string \<times> string) list" where
  "optional a [] = [([], [])]"
| "optional a (c # t) = (if in_atom a c then [([c], t)] else []) @ [([], c # t)]"

fun rmatch :: "regex \<Rightarrow> string \<Rightarrow> caps \<Rightarrow> (string \<times> string \<times> caps) list" where
  "rmatch Eps s k = [([], s, k)]"
| "rmatch (Atom a) s k =
     (case s of [] \<Rightarrow> [] | c # t \<Rightarrow> if in_atom a c then [([c], t, k)] else [])"
| "rmatch (Star a) s k = map (\<lambda>(p, r). (p, r, k)) (greedy_star a s)"
| "rmatch (Plus a) s k = map (\<lambda>(p, r). (p, r, k)) (greedy_plus a s)"
| "rmatch (Opt a) s k = map (\<lambda>(p, r). (p, r, k)) (optional a s)"
| "rmatch (LazyStar a) s k = map (\<lambda>(p, r). (p, r, k)) (lazy_star a s)"
| "rmatch (Seq r1 r2) s k =
     concat (map (\<lambda>(p1, t1, k1). map (\<lambda>(p2, t2, k2). (p1 @ p2, t2, k2)) (rmatch r2 t1 k1))
                 (rmatch r1 s k))"
| "rmatch (Alt r1 r2) s k = rmatch r1 s k @ rmatch r2 s k"
| "rmatch (Group n r) s k = map (\<lambda>(p, t, k'). (p, t, k'(n \<mapsto> p))) (rmatch r s k)"
| "rmatch Eos s k = (if s = [] \<or> s = [newline] then [([], s, k)] else [])"

record re_match =
  skipped :: string   \<comment> \<open>the text before the match\<close>
  matched :: string   \<comment> \<open>\<^verbatim>\<open>group(0)\<close>\<close>
  rest :: string      \<comment> \<open>the text after the match\<close>
  groups :: caps

fun re_search_from :: "regex \<Rightarrow> string \<Rightarrow> string \<Rightarrow> re_match option" where
  "re_search_from r pre [] =
     (case rmatch r [] Map.empty of
        [] \<Rightarrow> None
      | (p, t, k) # _ \<Rightarrow> Some \<lparr>skipped = pre, matched = p, rest = t, groups = k\<rparr>)"
| "re_search_from r pre (c # s) =
     (case rmatch r (c # s) Map.empty of
        [] \<Rightarrow> re_search_from r (pre @ [c]) s
      | (p, t, k) # _ \<Rightarrow> Some \<lparr>skipped = pre, matched = p, rest = t, groups = k\<rparr>)"

definition re_search :: "regex \<Rightarrow> string \<Rightarrow> re_match option" where
  \<comment> \<open>\<^verbatim>\<open>re.search\<close>: the match at the leftmost position that has one\<close>
  "re_search r s = re_search_from r [] s"

subsection \<open>A match is cut out of the text\<close>

lemma greedy_star_split: "(p, r) \<in> set (greedy_star a s) \<Longrightarrow> s = p @ r"
  by (induction s arbitrary: p r) (auto split: if_splits)

lemma lazy_star_split: "(p, r) \<in> set (lazy_star a s) \<Longrightarrow> s = p @ r"
  by (induction s arbitrary: p r) (auto split: if_splits)

lemma greedy_plus_split: "(p, r) \<in> set (greedy_plus a s) \<Longrightarrow> s = p @ r"
  by (cases s) (auto split: if_splits dest: greedy_star_split)

lemma optional_split: "(p, r) \<in> set (optional a s) \<Longrightarrow> s = p @ r"
  by (cases s) (auto split: if_splits)

lemma rmatch_split: "(p, t, k') \<in> set (rmatch r s k) \<Longrightarrow> s = p @ t"
proof (induction r arbitrary: p t k' s k)
  case (Seq r1 r2)
  then obtain p1 t1 k1 p2 where
    a: "(p1, t1, k1) \<in> set (rmatch r1 s k)" and
    b: "(p2, t, k') \<in> set (rmatch r2 t1 k1)" and c: "p = p1 @ p2"
    by auto
  from Seq.IH(1) [OF a] Seq.IH(2) [OF b] c show ?case by simp
qed (auto split: list.splits if_splits
      dest: greedy_star_split lazy_star_split greedy_plus_split optional_split)

lemma re_search_from_split:
  "re_search_from r pre s = Some m \<Longrightarrow> pre @ s = skipped m @ matched m @ rest m"
proof (induction s arbitrary: pre)
  case Nil
  show ?case
  proof (cases "rmatch r [] Map.empty")
    case Nil
    with Nil.prems show ?thesis by simp
  next
    case (Cons x xs)
    obtain p t k where x: "x = (p, t, k)" by (cases x)
    with Cons have "(p, t, k) \<in> set (rmatch r [] Map.empty)" by simp
    then have cut: "[] = p @ t" by (rule rmatch_split)
    from Cons x Nil.prems
    have "m = \<lparr>skipped = pre, matched = p, rest = t, groups = k\<rparr>" by simp
    with cut show ?thesis by simp
  qed
next
  case (Cons c s)
  show ?case
  proof (cases "rmatch r (c # s) Map.empty")
    case Nil
    with Cons.prems have "re_search_from r (pre @ [c]) s = Some m" by simp
    from Cons.IH [OF this] show ?thesis by simp
  next
    case (Cons x xs)
    obtain p t k where x: "x = (p, t, k)" by (cases x)
    with Cons have "(p, t, k) \<in> set (rmatch r (c # s) Map.empty)" by simp
    then have cut: "c # s = p @ t" by (rule rmatch_split)
    from Cons x Cons.prems
    have "m = \<lparr>skipped = pre, matched = p, rest = t, groups = k\<rparr>" by simp
    with cut show ?thesis by simp
  qed
qed

lemma re_search_split: "re_search r s = Some m \<Longrightarrow> s = skipped m @ matched m @ rest m"
  using re_search_from_split [of r "[]" s m] by (simp add: re_search_def)

lemma re_search_shorter:
  "re_search r s = Some m \<Longrightarrow> matched m \<noteq> [] \<Longrightarrow> length (rest m) < length s"
  by (drule re_search_split) (cases "matched m", auto)

subsection \<open>\<^verbatim>\<open>re.findall\<close> and \<^verbatim>\<open>re.split\<close>\<close>

text \<open>
  Both scan the text from left to right, each search starting where the last match
  ended. No pattern the program gives them matches the empty text; the scan is
  modelled to stop at an empty match.
\<close>

function re_finditer :: "regex \<Rightarrow> string \<Rightarrow> re_match list" where
  "re_finditer r s =
     (case re_search r s of
        None \<Rightarrow> []
      | Some m \<Rightarrow> if matched m = [] then [m] else m # re_finditer r (rest m))"
  by pat_completeness auto
termination
  by (relation "measure (\<lambda>(r, s). length s)") (auto dest: re_search_shorter)

definition tuple_item :: "re_match \<Rightarrow> nat \<Rightarrow> string" where
  \<comment> \<open>component \<open>i\<close> of the tuple \<^verbatim>\<open>re.findall\<close> returns for a match: the text of group
      \<open>i + 1\<close>, empty when the group took no part\<close>
  "tuple_item m i = (case groups m (Suc i) of None \<Rightarrow> [] | Some s \<Rightarrow> s)"

function re_split :: "regex \<Rightarrow> string \<Rightarrow> string list" where
  \<comment> \<open>\<^verbatim>\<open>re.split\<close> for a pattern without groups: the pieces between the matches\<close>
  "re_split r s =
     (case re_search r s of
        None \<Rightarrow> [s]
      | Some m \<Rightarrow> if matched m = [] then [s] else skipped m # re_split r (rest m))"
  by pat_completeness auto
termination
  by (relation "measure (\<lambda>(r, s). length s)") (auto dest: re_search_shorter)

declare re_finditer.simps [simp del] re_split.simps [simp del]

definition str_group :: "re_match \<Rightarrow> nat \<Rightarrow> error + string" where
  \<comment> \<open>\<^verbatim>\<open>m.group(n)\<close> used as a string: a method call on it raises when the group
      took no part in the match and is \<^verbatim>\<open>None\<close>\<close>
  "str_group m n = (case groups m n of None \<Rightarrow> Inl AttributeError | Some s \<Rightarrow> Inr s)"

definition int_group :: "re_match \<Rightarrow> nat \<Rightarrow> error + int" where
  \<comment> \<open>\<^verbatim>\<open>int(m.group(n))\<close>\<close>
  "int_group m n = (case groups m n of None \<Rightarrow> Inl TypeError | Some s \<Rightarrow> py_int s)"

section \<open>The uptime parser\<close>

definition uptime_days_pat :: regex where
  \<comment> \<open>\<^verbatim>\<open>(\d+)\s+days?\s+(\d+):(\d+):(\d+)\<close>\<close>
  "uptime_days_pat = cat [Group 1 (Plus Digit), Plus Space, lit ''day'', Opt (Ch CHR ''s''),
     Plus Space, Group 2 (Plus Digit), lit '':'', Group 3 (Plus Digit), lit '':'',
     Group 4 (Plus Digit)]"

definition uptime_hms_pat :: regex where
  \<comment> \<open>\<^verbatim>\<open>(\d+):(\d+):(\d+)\<close>\<close>
  "uptime_hms_pat = cat [Group 1 (Plus Digit), lit '':'', Group 2 (Plus Digit), lit '':'',
     Group 3 (Plus Digit)]"

definition parse_uptime :: "string \<Rightarrow> error + int" where
  "parse_uptime output =
     (case re_search uptime_days_pat output of
        Some m \<Rightarrow>
          and_then (int_group m 1) (\<lambda>days.
          and_then (int_group m 2) (\<lambda>hours.
          and_then (int_group m 3) (\<lambda>minutes.
          and_then (int_group m 4) (\<lambda>seconds.
            Inr (days * 86400 + hours * 3600 + minutes * 60 + seconds)))))
      | None \<Rightarrow>
          (case re_search uptime_hms_pat output of
             Some m \<Rightarrow>
               and_then (int_group m 1) (\<lambda>hours.
               and_then (int_group m 2) (\<lambda>minutes.
               and_then (int_group m 3) (\<lambda>seconds.
                 Inr (hours * 3600 + minutes * 60 + seconds))))
           | None \<Rightarrow> Inr 0))"

definition on_match :: "regex \<Rightarrow> string \<Rightarrow> (re_match \<Rightarrow> 'r \<Rightarrow> error + 'r) \<Rightarrow> 'r \<Rightarrow> error + 'r" where
  \<comment> \<open>\<^verbatim>\<open>m = re.search(pat, text)\<close> and then \<^verbatim>\<open>if m: ...\<close>, the body updating \<open>c\<close>\<close>
  "on_match pat s f c = (case re_search pat s of None \<Rightarrow> Inr c | Some m \<Rightarrow> f m c)"

definition group_strip :: "re_match \<Rightarrow> nat \<Rightarrow> error + string" where
  \<comment> \<open>\<^verbatim>\<open>m.group(n).strip()\<close>\<close>
  "group_strip m n = and_then (str_group m n) (\<lambda>g. Inr (strip g))"

section \<open>The version parser\<close>

record version_info =
  model :: string
  firmware :: string
  build_date :: string

definition model_pat :: regex where
  \<comment> \<open>\<^verbatim>\<open>model\s*:\s*(.+)\<close>\<close>
  "model_pat = cat [lit ''model'', Star Space, lit '':'', Star Space, Group 1 (Plus Dot)]"

definition firmware_pat :: regex where
  \<comment> \<open>\<^verbatim>\<open>firmware version\s*:\s*(.+)\<close>\<close>
  "firmware_pat =
     cat [lit ''firmware version'', Star Space, lit '':'', Star Space, Group 1 (Plus Dot)]"

definition build_pat :: regex where
  \<comment> \<open>\<^verbatim>\<open>build date\s*:\s*(.+)\<close>\<close>
  "build_pat = cat [lit ''build date'', Star Space, lit '':'', Star Space, Group 1 (Plus Dot)]"

definition parse_version :: "string \<Rightarrow> error + version_info" where
  "parse_version output =
     and_then (on_match model_pat output
                 (\<lambda>m info. and_then (group_strip m 1) (\<lambda>g. Inr (info\<lparr>model := g\<rparr>)))
                 \<lparr>model = ''Unknown'', firmware = ''Unknown'', build_date = ''Unknown''\<rparr>)
       (\<lambda>info.
     and_then (on_match firmware_pat output
                 (\<lambda>m info. and_then (group_strip m 1) (\<lambda>g. Inr (info\<lparr>firmware := g\<rparr>))) info)
       (\<lambda>info.
     on_match build_pat output
       (\<lambda>m info. and_then (group_strip m 1) (\<lambda>g. Inr (info\<lparr>build_date := g\<rparr>))) info))"

section \<open>The CPU and memory parsers\<close>

record cpu_data =
  current :: int
  avg_1min :: int
  avg_5min :: int
  cores :: "int list"

definition core_pattern :: regex where
  \<comment> \<open>\<^verbatim>\<open>CPU core (\d+) utilization:\s*(\d+)\s*%\<close>\<close>
  "core_pattern = cat [lit ''CPU core '', Group 1 (Plus Digit), lit '' utilization:'',
     Star Space, Group 2 (Plus Digit), Star Space, lit ''%'']"

definition core_1min_pattern :: regex where
  \<comment> \<open>\<^verbatim>\<open>CPU core (\d+) utilization for 1 min:\s*(\d+)\s*%\<close>\<close>
  "core_1min_pattern = cat [lit ''CPU core '', Group 1 (Plus Digit),
     lit '' utilization for 1 min:'', Star Space, Group 2 (Plus Digit), Star Space, lit ''%'']"

definition core_5min_pattern :: regex where
  \<comment> \<open>\<^verbatim>\<open>CPU core (\d+) utilization for 5 min:\s*(\d+)\s*%\<close>\<close>
  "core_5min_pattern = cat [lit ''CPU core '', Group 1 (Plus Digit),
     lit '' utilization for 5 min:'', Star Space, Group 2 (Plus Digit), Star Space, lit ''%'']"

fun int_items :: "re_match list \<Rightarrow> error + int list" where
  \<comment> \<open>\<^verbatim>\<open>int(c[1]) for c in cores\<close>, in order\<close>
  "int_items [] = Inr []"
| "int_items (c # cs) =
     and_then (py_int (tuple_item c 1)) (\<lambda>v. and_then (int_items cs) (\<lambda>vs. Inr (v # vs)))"

definition average :: "re_match list \<Rightarrow> error + int" where
  \<comment> \<open>\<^verbatim>\<open>sum(int(c[1]) for c in cores) // len(cores)\<close>\<close>
  "average cs = and_then (int_items cs) (\<lambda>vs. py_floordiv (sum_list vs) (int (length cs)))"

definition parse_cpu :: "string \<Rightarrow> error + cpu_data" where
  "parse_cpu output =
     (let cores_current = re_finditer core_pattern output;
          cores_1min = re_finditer core_1min_pattern output;
          cores_5min = re_finditer core_5min_pattern output
      in
      and_then (if cores_current \<noteq> []
                then and_then (average cores_current) (\<lambda>a.
                     and_then (int_items cores_current) (\<lambda>vs.
                       Inr \<lparr>current = a, avg_1min = 0, avg_5min = 0, cores = vs\<rparr>))
                else Inr \<lparr>current = 0, avg_1min = 0, avg_5min = 0, cores = []\<rparr>)
        (\<lambda>cpu_data.
      and_then (if cores_1min \<noteq> []
                then and_then (average cores_1min) (\<lambda>a. Inr (cpu_data\<lparr>avg_1min := a\<rparr>))
                else Inr cpu_data)
        (\<lambda>cpu_data.
      if cores_5min \<noteq> []
      then and_then (average cores_5min) (\<lambda>a. Inr (cpu_data\<lparr>avg_5min := a\<rparr>))
      else Inr cpu_data)))"

definition memory_pat :: regex where
  \<comment> \<open>\<^verbatim>\<open>memory usage:\s*(\d+)\s*%\<close>\<close>
  "memory_pat =
     cat [lit ''memory usage:'', Star Space, Group 1 (Plus Digit), Star Space, lit ''%'']"

definition parse_memory :: "string \<Rightarrow> error + int" where
  "parse_memory output =
     (case re_search memory_pat output of Some m \<Rightarrow> int_group m 1 | None \<Rightarrow> Inr 0)"

section \<open>The client parser\<close>

text \<open>
  A client is a dictionary that holds a key only when its pattern was found in the
  block: a field is \<open>None\<close> when the key is absent. The fields that store
  \<^verbatim>\<open>m.group(1)\<close> as it is would also hold Python's \<^verbatim>\<open>None\<close> as \<open>None\<close>.
\<close>

record client =
  mac :: "string option"
  ip :: "string option"
  ssid :: "string option"
  security :: "string option"
  rssi_dbm :: "int option"
  rssi_percent :: "int option"
  band :: "string option"
  slot :: "int option"
  tx_rate :: "int option"
  rx_rate :: "int option"
  capability :: "string option"
  connected_since :: "string option"

definition no_client :: client where
  \<comment> \<open>\<^verbatim>\<open>client = {}\<close>\<close>
  "no_client = \<lparr>mac = None, ip = None, ssid = None, security = None, rssi_dbm = None,
     rssi_percent = None, band = None, slot = None, tx_rate = None, rx_rate = None,
     capability = None, connected_since = None\<rparr>"

definition index_pat :: regex where
  \<comment> \<open>\<^verbatim>\<open>index:\s*\d+\<close>\<close>
  "index_pat = cat [lit ''index:'', Star Space, Plus Digit]"

definition mac_pat :: regex where
  \<comment> \<open>\<^verbatim>\<open>MAC:\s*([\da-fA-F:]+)\<close>\<close>
  "mac_pat = cat [lit ''MAC:'', Star Space,
     Group 1 (Plus (OneOf [IDigit, IRange CHR ''a'' CHR ''f'', IRange CHR ''A'' CHR ''F'',
                           IChar CHR '':'']))]"

definition ipv4_pat :: regex where
  \<comment> \<open>\<^verbatim>\<open>IPv4:\s*([\d.]+)\<close>\<close>
  "ipv4_pat = cat [lit ''IPv4:'', Star Space, Group 1 (Plus (OneOf [IDigit, IChar CHR ''.'']))]"

definition display_ssid_pat :: regex where
  \<comment> \<open>\<^verbatim>\<open>Display SSID:\s*(.+)\<close>\<close>
  "display_ssid_pat = cat [lit ''Display SSID:'', Star Space, Group 1 (Plus Dot)]"

definition ssid_pat :: regex where
  \<comment> \<open>\<^verbatim>\<open>SSID:\s*(.+)\<close>\<close>
  "ssid_pat = cat [lit ''SSID:'', Star Space, Group 1 (Plus Dot)]"

definition security_pat :: regex where
  \<comment> \<open>\<^verbatim>\<open>Security:\s*(.+)\<close>\<close>
  "security_pat = cat [lit ''Security:'', Star Space, Group 1 (Plus Dot)]"

definition rssi_dbm_pat :: regex where
  \<comment> \<open>\<^verbatim>\<open>RSSI dBm:\s*(-?\d+)\<close>\<close>
  "rssi_dbm_pat = cat [lit ''RSSI dBm:'', Star Space,
     Group 1 (Seq (Opt (Ch CHR ''-'')) (Plus Digit))]"

definition rssi_pat :: regex where
  \<comment> \<open>\<^verbatim>\<open>RSSI:\s*(\d+)\<close>\<close>
  "rssi_pat = cat [lit ''RSSI:'', Star Space, Group 1 (Plus Digit)]"

definition band_pat :: regex where
  \<comment> \<open>\<^verbatim>\<open>Band:\s*([\dG.Hz]+)\<close>\<close>
  "band_pat = cat [lit ''Band:'', Star Space,
     Group 1 (Plus (OneOf [IDigit, IChar CHR ''G'', IChar CHR ''.'', IChar CHR ''H'',
                           IChar CHR ''z'']))]"

definition slot_pat :: regex where
  \<comment> \<open>\<^verbatim>\<open>Slot:\s*(\d+)\<close>\<close>
  "slot_pat = cat [lit ''Slot:'', Star Space, Group 1 (Plus Digit)]"

definition tx_pat :: regex where
  \<comment> \<open>\<^verbatim>\<open>TxRate:\s*(\d+)M\<close>\<close>
  "tx_pat = cat [lit ''TxRate:'', Star Space, Group 1 (Plus Digit), lit ''M'']"

definition rx_pat :: regex where
  \<comment> \<open>\<^verbatim>\<open>RxRate:\s*(\d+)M\<close>\<close>
  "rx_pat = cat [lit ''RxRate:'', Star Space, Group 1 (Plus Digit), lit ''M'']"

definition capability_pat :: regex where
  \<comment> \<open>\<^verbatim>\<open>Capability:\s*(.+)\<close>\<close>
  "capability_pat = cat [lit ''Capability:'', Star Space, Group 1 (Plus Dot)]"

definition time_pat :: regex where
  \<comment> \<open>\<^verbatim>\<open>Time:\s*(.+)\<close>\<close>
  "time_pat = cat [lit ''Time:'', Star Space, Group 1 (Plus Dot)]"

definition set_ssid :: "string \<Rightarrow> client \<Rightarrow> error + client" where
  \<comment> \<open>the \<^verbatim>\<open>if ssid_match: ... elif re.search(...): ...\<close> statement, which searches
      the second pattern twice\<close>
  "set_ssid block c =
     (case re_search display_ssid_pat block of
        Some m \<Rightarrow> and_then (group_strip m 1) (\<lambda>g. Inr (c\<lparr>ssid := Some g\<rparr>))
      | None \<Rightarrow>
          (case re_search ssid_pat block of
             Some _ \<Rightarrow>
               (case re_search ssid_pat block of
                  None \<Rightarrow> Inl AttributeError
                | Some m \<Rightarrow> and_then (group_strip m 1) (\<lambda>g. Inr (c\<lparr>ssid := Some g\<rparr>)))
           | None \<Rightarrow> Inr c))"

definition parse_client_block :: "string \<Rightarrow> error + client" where
  \<comment> \<open>the body of the loop over the blocks, up to the test of the MAC\<close>
  "parse_client_block block =
     and_then (on_match mac_pat block
        (\<lambda>m c. and_then (str_group m 1) (\<lambda>g. Inr (c\<lparr>mac := Some (upper g)\<rparr>))) no_client) (\<lambda>c.
     and_then (on_match ipv4_pat block (\<lambda>m c. Inr (c\<lparr>ip := groups m 1\<rparr>)) c) (\<lambda>c.
     and_then (set_ssid block c) (\<lambda>c.
     and_then (on_match security_pat block
        (\<lambda>m c. and_then (group_strip m 1) (\<lambda>g. Inr (c\<lparr>security := Some g\<rparr>))) c) (\<lambda>c.
     and_then (on_match rssi_dbm_pat block
        (\<lambda>m c. and_then (int_group m 1) (\<lambda>v. Inr (c\<lparr>rssi_dbm := Some v\<rparr>))) c) (\<lambda>c.
     and_then (on_match rssi_pat block
        (\<lambda>m c. and_then (int_group m 1) (\<lambda>v. Inr (c\<lparr>rssi_percent := Some v\<rparr>))) c) (\<lambda>c.
     and_then (on_match band_pat block (\<lambda>m c. Inr (c\<lparr>band := groups m 1\<rparr>)) c) (\<lambda>c.
     and_then (on_match slot_pat block
        (\<lambda>m c. and_then (int_group m 1) (\<lambda>v. Inr (c\<lparr>slot := Some v\<rparr>))) c) (\<lambda>c.
     and_then (on_match tx_pat block
        (\<lambda>m c. and_then (int_group m 1) (\<lambda>v. Inr (c\<lparr>tx_rate := Some v\<rparr>))) c) (\<lambda>c.
     and_then (on_match rx_pat block
        (\<lambda>m c. and_then (int_group m 1) (\<lambda>v. Inr (c\<lparr>rx_rate := Some v\<rparr>))) c) (\<lambda>c.
     and_then (on_match capability_pat block
        (\<lambda>m c. and_then (group_strip m 1) (\<lambda>g. Inr (c\<lparr>capability := Some g\<rparr>))) c) (\<lambda>c.
     on_match time_pat block
        (\<lambda>m c. and_then (group_strip m 1) (\<lambda>g. Inr (c\<lparr>connected_since := Some g\<rparr>))) c)))))))))))"

definition has_mac :: "client \<Rightarrow> bool" where
  \<comment> \<open>\<^verbatim>\<open>if client.get("mac")\<close>: the key is there and its text is not empty\<close>
  "has_mac c = (case mac c of None \<Rightarrow> False | Some a \<Rightarrow> a \<noteq> [])"

fun clients_loop :: "string list \<Rightarrow> client list \<Rightarrow> error + client list" where
  \<comment> \<open>\<^verbatim>\<open>for block in client_blocks[1:]\<close>, appending to \<^verbatim>\<open>clients\<close>\<close>
  "clients_loop [] clients = Inr clients"
| "clients_loop (block # blocks) clients =
     and_then (parse_client_block block)
       (\<lambda>c. clients_loop blocks (if has_mac c then clients @ [c] else clients))"

definition parse_clients :: "string \<Rightarrow> error + client list" where
  "parse_clients output = clients_loop (drop 1 (re_split index_pat output)) []"

section \<open>The interface, radio and port parsers\<close>

text \<open>
  A field the code fills with \<^verbatim>\<open>m.group(n)\<close> as it is has the type \<open>string option\<close>:
  the text of the group, or \<open>None\<close> for Python's \<^verbatim>\<open>None\<close>.
\<close>

record iface =
  if_name :: string
  if_status :: string
  if_ip :: "string option"

record network_info =
  ip_address :: "string option"
  netmask :: "string option"
  interfaces :: "iface list"

definition lan_pat :: regex where
  \<comment> \<open>\<^verbatim>\<open>lan\s+Up\s+([\d.]+)\s+([\d.]+)\<close>\<close>
  "lan_pat = cat [lit ''lan'', Plus Space, lit ''Up'', Plus Space,
     Group 1 (Plus (OneOf [IDigit, IChar CHR ''.''])), Plus Space,
     Group 2 (Plus (OneOf [IDigit, IChar CHR ''.'']))]"

definition iface_pat :: regex where
  \<comment> \<open>\<^verbatim>\<open>(\d+)\s+(\S+)\s+(Up|Down|n/a)\s+([\d.]+|n/a)\<close>\<close>
  "iface_pat = cat [Group 1 (Plus Digit), Plus Space, Group 2 (Plus NonSpace), Plus Space,
     Group 3 (Alt (lit ''Up'') (Alt (lit ''Down'') (lit ''n/a''))), Plus Space,
     Group 4 (Alt (Plus (OneOf [IDigit, IChar CHR ''.''])) (lit ''n/a''))]"

definition make_iface :: "re_match \<Rightarrow> iface" where
  \<comment> \<open>the dictionary appended for one tuple of \<^verbatim>\<open>interface_lines\<close>\<close>
  "make_iface i = \<lparr>if_name = tuple_item i 1, if_status = tuple_item i 2,
     if_ip = (if tuple_item i 3 \<noteq> ''n/a'' then Some (tuple_item i 3) else None)\<rparr>"

definition parse_interfaces :: "string \<Rightarrow> error + network_info" where
  "parse_interfaces output =
     and_then (on_match lan_pat output
                 (\<lambda>m n. Inr (n\<lparr>ip_address := groups m 1, netmask := groups m 2\<rparr>))
                 \<lparr>ip_address = Some ''Unknown'', netmask = Some ''Unknown'', interfaces = []\<rparr>)
       (\<lambda>n. Inr (n\<lparr>interfaces := interfaces n @ map make_iface (re_finditer iface_pat output)\<rparr>))"

record radio_info =
  slot1_active :: bool
  slot1_band :: "string option"
  slot1_ssids :: "string list"
  slot2_active :: bool
  slot2_band :: "string option"
  slot2_ssids :: "string list"

definition slot1_pat :: regex where
  \<comment> \<open>\<^verbatim>\<open>slot: slot1.*?Activate: (\w+).*?Band: ([\dG.]+)\<close> with \<^verbatim>\<open>re.DOTALL\<close>\<close>
  "slot1_pat = cat [lit ''slot: slot1'', LazyStar DotAll, lit ''Activate: '', Group 1 (Plus Word),
     LazyStar DotAll, lit ''Band: '',
     Group 2 (Plus (OneOf [IDigit, IChar CHR ''G'', IChar CHR ''.'']))]"

definition slot1_block_pat :: regex where
  \<comment> \<open>\<^verbatim>\<open>slot: slot1(.*?)(?:slot: slot2|$)\<close> with \<^verbatim>\<open>re.DOTALL\<close>\<close>
  "slot1_block_pat =
     cat [lit ''slot: slot1'', Group 1 (LazyStar DotAll), Alt (lit ''slot: slot2'') Eos]"

definition slot2_pat :: regex where
  \<comment> \<open>\<^verbatim>\<open>slot: slot2.*?Activate: (\w+).*?Band: ([\dG.]+)\<close> with \<^verbatim>\<open>re.DOTALL\<close>\<close>
  "slot2_pat = cat [lit ''slot: slot2'', LazyStar DotAll, lit ''Activate: '', Group 1 (Plus Word),
     LazyStar DotAll, lit ''Band: '',
     Group 2 (Plus (OneOf [IDigit, IChar CHR ''G'', IChar CHR ''.'']))]"

definition slot2_block_pat :: regex where
  \<comment> \<open>\<^verbatim>\<open>slot: slot2(.*?)$\<close> with \<^verbatim>\<open>re.DOTALL\<close>\<close>
  "slot2_block_pat = cat [lit ''slot: slot2'', Group 1 (LazyStar DotAll), Eos]"

definition ssid_profile_pat :: regex where
  \<comment> \<open>\<^verbatim>\<open>SSID_profile_\d+:\s*(\S+)\<close>\<close>
  "ssid_profile_pat =
     cat [lit ''SSID_profile_'', Plus Digit, lit '':'', Star Space, Group 1 (Plus NonSpace)]"

definition block_ssids :: "re_match \<Rightarrow> error + string list" where
  \<comment> \<open>\<^verbatim>\<open>[s for s in re.findall(pattern, block.group(1)) if s]\<close>; \<^verbatim>\<open>re.findall\<close>
      raises on \<^verbatim>\<open>None\<close>\<close>
  "block_ssids m =
     (case groups m 1 of
        None \<Rightarrow> Inl TypeError
      | Some b \<Rightarrow>
          Inr (filter (\<lambda>s. s \<noteq> []) (map (\<lambda>f. tuple_item f 0) (re_finditer ssid_profile_pat b))))"

definition parse_wlan :: "string \<Rightarrow> error + radio_info" where
  "parse_wlan output =
     and_then (on_match slot1_pat output
        (\<lambda>m radio. and_then (str_group m 1) (\<lambda>g.
           Inr (radio\<lparr>slot1_active := (lower g = ''yes''), slot1_band := groups m 2\<rparr>)))
        \<lparr>slot1_active = False, slot1_band = Some ''Unknown'', slot1_ssids = [],
         slot2_active = False, slot2_band = Some ''Unknown'', slot2_ssids = []\<rparr>) (\<lambda>radio.
     and_then (on_match slot1_block_pat output
        (\<lambda>m radio. and_then (block_ssids m) (\<lambda>ssids. Inr (radio\<lparr>slot1_ssids := ssids\<rparr>)))
        radio) (\<lambda>radio.
     and_then (on_match slot2_pat output
        (\<lambda>m radio. and_then (str_group m 1) (\<lambda>g.
           Inr (radio\<lparr>slot2_active := (lower g = ''yes''), slot2_band := groups m 2\<rparr>)))
        radio) (\<lambda>radio.
     on_match slot2_block_pat output
        (\<lambda>m radio. and_then (block_ssids m) (\<lambda>ssids. Inr (radio\<lparr>slot2_ssids := ssids\<rparr>)))
        radio)))"

record port_info =
  port_status :: "string option"
  speed :: string
  tx_bytes :: int
  rx_bytes :: int
  port_tx_rate :: int
  port_rx_rate :: int
  port_uptime :: "string option"

definition port_pat :: regex where
  \<comment> \<open>\<^verbatim>\<open>1\s+(\S+)\s+\d+\s+\d+\s+\d+\s+\d+\s+\d+\s+(\d+)\s+(\d+)\s+([\d:]+)\s+\d+\s+(\d+)\s+(\d+)\<close>\<close>
  "port_pat = cat [lit ''1'', Plus Space, Group 1 (Plus NonSpace), Plus Space,
     Plus Digit, Plus Space, Plus Digit, Plus Space, Plus Digit, Plus Space,
     Plus Digit, Plus Space, Plus Digit, Plus Space,
     Group 2 (Plus Digit), Plus Space, Group 3 (Plus Digit), Plus Space,
     Group 4 (Plus (OneOf [IDigit, IChar CHR '':''])), Plus Space,
     Plus Digit, Plus Space, Group 5 (Plus Digit), Plus Space, Group 6 (Plus Digit)]"

definition set_speed :: "port_info \<Rightarrow> error + port_info" where
  \<comment> \<open>\<^verbatim>\<open>if "/" in port["status"]: port["speed"] = port["status"].split("/")[0]\<close>;
      \<^verbatim>\<open>in\<close> raises on \<^verbatim>\<open>None\<close>\<close>
  "set_speed port =
     (case port_status port of
        None \<Rightarrow> Inl TypeError
      | Some st \<Rightarrow>
          Inr (if CHR ''/'' \<in> set st then port\<lparr>speed := takeWhile (\<lambda>c. c \<noteq> CHR ''/'') st\<rparr>
               else port))"

definition parse_port_status :: "string \<Rightarrow> error + port_info" where
  "parse_port_status output =
     on_match port_pat output
       (\<lambda>m port.
          and_then (int_group m 2) (\<lambda>tx.
          and_then (int_group m 3) (\<lambda>rx.
          and_then (int_group m 5) (\<lambda>txb.
          and_then (int_group m 6) (\<lambda>rxb.
            set_speed (port\<lparr>port_status := groups m 1, port_tx_rate := tx, port_rx_rate := rx,
                            port_uptime := groups m 4, tx_bytes := txb, rx_bytes := rxb\<rparr>))))))
       \<lparr>port_status = Some ''Unknown'', speed = ''Unknown'', tx_bytes = 0, rx_bytes = 0,
        port_tx_rate = 0, port_rx_rate = 0, port_uptime = Some ''Unknown''\<rparr>"

section \<open>The command runner, the aggregator and the two actions\<close>

text \<open>
  What the device and the SSH libraries do is a parameter: for each command, after the
  calls made so far, the library returns text or raises. The calls made so far are kept
  as a trace, which also records the pauses.
\<close>

datatype event =
    Exec string   \<comment> \<open>a call of \<^verbatim>\<open>async_execute_command\<close>\<close>
  | Sleep nat     \<comment> \<open>\<^verbatim>\<open>asyncio.sleep\<close>, in milliseconds\<close>

type_synonym trace = "event list"

record env =
  has_asyncssh :: bool   \<comment> \<open>\<^verbatim>\<open>HAS_ASYNCSSH\<close>\<close>
  has_paramiko :: bool   \<comment> \<open>\<^verbatim>\<open>HAS_PARAMIKO\<close>\<close>
  conn :: bool           \<comment> \<open>\<^verbatim>\<open>self._conn\<close> holds a connection\<close>
  ssh_run :: "trace \<Rightarrow> string \<Rightarrow> error + string"
    \<comment> \<open>\<^verbatim>\<open>(await self._conn.run(command, check=True, timeout=15)).stdout\<close>\<close>
  conn_exec :: "trace \<Rightarrow> string \<Rightarrow> error + string"
    \<comment> \<open>\<^verbatim>\<open>exec_command\<close> on the kept paramiko client, read and decoded\<close>
  temp_exec :: "trace \<Rightarrow> string \<Rightarrow> error + string"
    \<comment> \<open>connecting a temporary paramiko client, \<^verbatim>\<open>exec_command\<close>, read and decoded\<close>

definition execute_command_sync :: "env \<Rightarrow> trace \<Rightarrow> string \<Rightarrow> string option" where
  \<comment> \<open>\<^verbatim>\<open>_execute_command_sync\<close>: both paths catch every exception\<close>
  "execute_command_sync e tr command =
     (if has_paramiko e \<and> conn e
      then (case conn_exec e tr command of Inl err \<Rightarrow> None | Inr output \<Rightarrow> Some output)
      else (case temp_exec e tr command of Inl err \<Rightarrow> None | Inr output \<Rightarrow> Some output))"

definition execute_body :: "env \<Rightarrow> trace \<Rightarrow> string \<Rightarrow> error + string option" where
  \<comment> \<open>the \<^verbatim>\<open>try\<close> block of \<^verbatim>\<open>async_execute_command\<close>\<close>
  "execute_body e tr command =
     (if has_asyncssh e \<and> conn e
      then and_then (ssh_run e tr command) (\<lambda>out. Inr (Some out))
      else if has_paramiko e then Inr (execute_command_sync e tr command)
      else Inr None)"

definition async_execute_command :: "env \<Rightarrow> trace \<Rightarrow> string \<Rightarrow> string option \<times> trace" where
  \<comment> \<open>\<^verbatim>\<open>except Exception: return None\<close>\<close>
  "async_execute_command e tr command =
     (case execute_body e tr command of Inl err \<Rightarrow> None | Inr r \<Rightarrow> r, tr @ [Exec command])"

record status_info =
  uptime :: "int option"
  cpu :: "cpu_data option"
  memory :: "int option"

record network_section =
  net :: "network_info option"   \<comment> \<open>the keys \<^verbatim>\<open>_parse_interfaces\<close> returns, when they are there\<close>
  port :: "port_info option"     \<comment> \<open>the key \<^verbatim>\<open>port\<close>\<close>

text \<open>
  The snapshot: a section that is the empty dictionary has no key, that is \<open>None\<close> in
  each place.
\<close>

record snapshot =
  device_info :: "version_info option"
  status :: status_info
  clients :: "client list"
  network :: network_section
  radio :: "radio_info option"

definition empty_snapshot :: snapshot where
  \<comment> \<open>\<^verbatim>\<open>{"device_info": {}, "status": {}, "clients": [], "network": {}, "radio": {}}\<close>\<close>
  "empty_snapshot = \<lparr>device_info = None,
     status = \<lparr>uptime = None, cpu = None, memory = None\<rparr>, clients = [],
     network = \<lparr>net = None, port = None\<rparr>, radio = None\<rparr>"

definition fetch ::
  "env \<Rightarrow> string \<Rightarrow> (string \<Rightarrow> error + 'a) \<Rightarrow> ('a \<Rightarrow> snapshot \<Rightarrow> snapshot) \<Rightarrow>
   (snapshot \<times> trace \<Rightarrow> snapshot \<times> trace) \<Rightarrow> snapshot \<times> trace \<Rightarrow> snapshot \<times> trace" where
  \<comment> \<open>one step of the \<^verbatim>\<open>try\<close> block of \<^verbatim>\<open>async_get_data\<close>: run the command and, if
      it printed anything, parse it and store the result; \<open>continue\<close> is the rest of
      the block, which an exception of the parser skips\<close>
  "fetch e command parse store continue dt =
     (let (data, tr) = dt; (output, tr') = async_execute_command e tr command in
      case output of
        None \<Rightarrow> continue (data, tr')
      | Some printed \<Rightarrow>
          if printed = [] then continue (data, tr')
          else (case parse printed of
                  Inl err \<Rightarrow> (data, tr')
                | Inr v \<Rightarrow> continue (store v data, tr')))"

definition async_get_data :: "env \<Rightarrow> trace \<Rightarrow> snapshot \<times> trace" where
  "async_get_data e tr =
     fetch e ''show version'' parse_version (\<lambda>v d. d\<lparr>device_info := Some v\<rparr>)
    (fetch e ''show system uptime'' parse_uptime
       (\<lambda>v d. d\<lparr>status := (status d)\<lparr>uptime := Some v\<rparr>\<rparr>)
    (fetch e ''show cpu all'' parse_cpu (\<lambda>v d. d\<lparr>status := (status d)\<lparr>cpu := Some v\<rparr>\<rparr>)
    (fetch e ''show mem status'' parse_memory
       (\<lambda>v d. d\<lparr>status := (status d)\<lparr>memory := Some v\<rparr>\<rparr>)
    (fetch e ''show wireless-hal station info'' parse_clients (\<lambda>v d. d\<lparr>clients := v\<rparr>)
    (fetch e ''show interface all'' parse_interfaces
       (\<lambda>v d. d\<lparr>network := \<lparr>net = Some v, port = None\<rparr>\<rparr>)
    (fetch e ''show wlan all'' parse_wlan (\<lambda>v d. d\<lparr>radio := Some v\<rparr>)
    (fetch e ''show port status'' parse_port_status
       (\<lambda>v d. d\<lparr>network := (network d)\<lparr>port := Some v\<rparr>\<rparr>)
    (\<lambda>dt. dt))))))))
    (empty_snapshot, tr)"

definition async_reboot :: "env \<Rightarrow> trace \<Rightarrow> bool \<times> trace" where
  "async_reboot e tr =
     (let (result, tr') = async_execute_command e tr ''reboot'' in
      if result \<noteq> None then (True, tr') else (False, tr'))"

definition guest_commands :: "bool \<Rightarrow> string list" where
  "guest_commands enable =
     (if enable
      then [''configure terminal'', ''wlan-ssid-profile Guest'', ''no ssid-schedule'',
            ''exit'', ''write'']
      else [''configure terminal'', ''wlan-ssid-profile Guest'', ''ssid-schedule'',
            ''exit'', ''write''])"

fun send_all :: "env \<Rightarrow> string list \<Rightarrow> trace \<Rightarrow> trace" where
  \<comment> \<open>\<^verbatim>\<open>for cmd in commands\<close>: run it, drop the result, sleep half a second\<close>
  "send_all e [] tr = tr"
| "send_all e (cmd # cmds) tr =
     (let (result, tr') = async_execute_command e tr cmd in send_all e cmds (tr' @ [Sleep 500]))"

definition async_toggle_guest_ssid :: "env \<Rightarrow> trace \<Rightarrow> bool \<Rightarrow> bool \<times> trace" where
  "async_toggle_guest_ssid e tr enable = (True, send_all e (guest_commands enable) tr)"

section \<open>What a match holds\<close>

text \<open>
  Three notions for reasoning about every text at once: \<open>yields P r\<close> says that each
  text \<open>r\<close> can consume satisfies \<open>P\<close>; \<open>captures P n r\<close> that each text group \<open>n\<close> of
  \<open>r\<close> can capture does; \<open>binds n r\<close> that every match of \<open>r\<close> sets group \<open>n\<close>.
\<close>

definition yields :: "(string \<Rightarrow> bool) \<Rightarrow> regex \<Rightarrow> bool" where
  "yields P r = (\<forall>s k p t k'. (p, t, k') \<in> set (rmatch r s k) \<longrightarrow> P p)"

fun captures :: "(string \<Rightarrow> bool) \<Rightarrow> nat \<Rightarrow> regex \<Rightarrow> bool" where
  "captures P n (Group i r) = ((i = n \<longrightarrow> yields P r) \<and> captures P n r)"
| "captures P n (Seq a b) = (captures P n a \<and> captures P n b)"
| "captures P n (Alt a b) = (captures P n a \<and> captures P n b)"
| "captures P n r = True"

fun binds :: "nat \<Rightarrow> regex \<Rightarrow> bool" where
  "binds n (Group i r) = (i = n \<or> binds n r)"
| "binds n (Seq a b) = (binds n a \<or> binds n b)"
| "binds n (Alt a b) = (binds n a \<and> binds n b)"
| "binds n r = False"

definition digits :: "string \<Rightarrow> bool" where
  \<comment> \<open>what \<^verbatim>\<open>\d+\<close> captures\<close>
  "digits g = (g \<noteq> [] \<and> list_all is_digit g)"

definition holds :: "('a \<Rightarrow> bool) \<Rightarrow> error + 'a \<Rightarrow> bool" where
  \<comment> \<open>the computation returns, and its value satisfies \<open>Q\<close>\<close>
  "holds Q x = (\<exists>v. x = Inr v \<and> Q v)"

definition core_values :: "string \<Rightarrow> int list" where
  \<comment> \<open>the utilizations of the core lines found in the text, in order\<close>
  "core_values s = map (\<lambda>m. dec_val (tuple_item m 1)) (re_finditer core_pattern s)"

definition hex_chars :: "char set" where
  \<comment> \<open>the characters of \<^verbatim>\<open>[\da-fA-F:]\<close>\<close>
  "hex_chars = set ''0123456789abcdefABCDEF:''"

definition upper_hex_chars :: "char set" where
  \<comment> \<open>their upper case\<close>
  "upper_hex_chars = set ''0123456789ABCDEF:''"

definition hex_text :: "string \<Rightarrow> bool" where
  \<comment> \<open>what \<^verbatim>\<open>[\da-fA-F:]+\<close> captures\<close>
  "hex_text g = (g \<noteq> [] \<and> set g \<subseteq> hex_chars)"

definition block_mac :: "string \<Rightarrow> string option" where
  \<comment> \<open>the MAC the loop body stores for a block, if any\<close>
  "block_mac b = (case re_search mac_pat b of None \<Rightarrow> None
                  | Some m \<Rightarrow> map_option upper (groups m 1))"

definition client_of :: "string \<Rightarrow> client" where
  \<comment> \<open>the record the loop body builds for a block (the body returns on every block)\<close>
  "client_of b = projr (parse_client_block b)"

definition dot_chars :: "char set" where
  \<comment> \<open>the characters of \<^verbatim>\<open>[\d.]\<close>\<close>
  "dot_chars = set ''0123456789.''"



definition three_core_block :: string where
  \<comment> \<open>a sample output of \<^verbatim>\<open>show cpu all\<close>: three cores at 10, 20 and 30 percent\<close>
  "three_core_block = ''CPU core 0 utilization: 10 %'' @ [newline]
     @ ''CPU core 1 utilization: 20 %'' @ [newline]
     @ ''CPU core 2 utilization: 30 %'' @ [newline]"

definition failing_device :: env where
  \<comment> \<open>a sample environment: connected, and every command raises in the SSH library\<close>
  "failing_device = \<lparr>has_asyncssh = True, has_paramiko = True, conn = True,
     ssh_run = (\<lambda>tr command. Inl SSHError), conn_exec = (\<lambda>tr command. Inl SSHError),
     temp_exec = (\<lambda>tr command. Inl SSHError)\<rparr>"

definition read_commands :: "string list" where
  \<comment> \<open>the eight commands of \<^verbatim>\<open>async_get_data\<close>, in the order of the source\<close>
  "read_commands = [''show version'', ''show system uptime'', ''show cpu all'',
     ''show mem status'', ''show wireless-hal station info'', ''show interface all'',
     ''show wlan all'', ''show port status'']"

definition nth_output :: "env \<Rightarrow> trace \<Rightarrow> nat \<Rightarrow> string option" where
  \<comment> \<open>what the command runner answers to command \<open>i\<close> (from 0 to 7) of a poll that
      starts after the calls of \<open>tr\<close>, the commands before it having been run\<close>
  "nth_output e tr i =
     fst (async_execute_command e (tr @ map Exec (take i read_commands)) (read_commands ! i))"

definition section_of :: "(string \<Rightarrow> error + 'a) \<Rightarrow> string option \<Rightarrow> 'a option" where
  \<comment> \<open>the section the specification describes for one command: empty when the command
      failed or printed nothing, and otherwise what the parser returns\<close>
  "section_of parse output =
     (case output of
        None \<Rightarrow> None
      | Some printed \<Rightarrow>
          if printed = [] then None
          else (case parse printed of Inl err \<Rightarrow> None | Inr v \<Rightarrow> Some v))"

definition merged :: "env \<Rightarrow> trace \<Rightarrow> snapshot" where
  \<comment> \<open>the merged snapshot as the specification describes it: each section from its
      own command, whatever the other commands did\<close>
  "merged e tr =
     \<lparr>device_info = section_of parse_version (nth_output e tr 0),
      status = \<lparr>uptime = section_of parse_uptime (nth_output e tr 1),
                cpu = section_of parse_cpu (nth_output e tr 2),
                memory = section_of parse_memory (nth_output e tr 3)\<rparr>,
      clients = (case section_of parse_clients (nth_output e tr 4) of
                   None \<Rightarrow> [] | Some cs \<Rightarrow> cs),
      network = \<lparr>net = section_of parse_interfaces (nth_output e tr 5),
                 port = section_of parse_port_status (nth_output e tr 7)\<rparr>,
      radio = section_of parse_wlan (nth_output e tr 6)\<rparr>"

definition put :: "'a option \<Rightarrow> ('a \<Rightarrow> snapshot \<Rightarrow> snapshot) \<Rightarrow> snapshot \<Rightarrow> snapshot" where
  \<comment> \<open>storing a section that is not empty\<close>
  "put sec store d = (case sec of None \<Rightarrow> d | Some v \<Rightarrow> store v d)"

fun longest_number :: "string \<Rightarrow> nat" where
  "longest_number [] = 0"
| "longest_number (c # s) = max (length (takeWhile is_digit (c # s))) (longest_number s)"

definition short_numbers :: "string \<Rightarrow> bool" where
  "short_numbers s = (longest_number s \<le> max_str_digits)"

definition outcome :: "bool \<Rightarrow> ('a \<Rightarrow> bool) \<Rightarrow> error + 'a \<Rightarrow> bool" where
  "outcome ok Q x = (case x of Inr v \<Rightarrow> Q v | Inl e \<Rightarrow> e = ValueError \<and> \<not> ok)"

fun first_char :: "regex \<Rightarrow> char option" where
  \<comment> \<open>the literal character every match of the pattern starts with, when the pattern
      starts with a literal\<close>
  "first_char (Atom (Ch c)) = Some c"
| "first_char (Seq a b) = first_char a"
| "first_char (Group i r) = first_char r"
| "first_char r = None"

definition star_rest :: "atom \<Rightarrow> nat \<Rightarrow> char \<Rightarrow> string \<Rightarrow> (string \<times> string) list" where
  \<comment> \<open>the shorter ways a starred class matches into a run of \<open>n\<close> characters \<open>c\<close> before
      \<open>t\<close>: what the engine tries after the ways that take the whole run\<close>
  "star_rest a n c t = drop (length (greedy_star a t)) (greedy_star a (replicate n c @ t))"

definition long_cpu_text :: "nat \<Rightarrow> string" where
  \<comment> \<open>the three core lines and a one-minute line whose figure has \<open>n\<close> digits\<close>
  "long_cpu_text n = three_core_block @ ''CPU core 0 utilization for 1 min: ''
     @ replicate n CHR ''9'' @ '' %''"

definition long_slot_text :: "nat \<Rightarrow> string" where
  \<comment> \<open>two client blocks, each with a MAC, the second with a slot number of \<open>n\<close> digits\<close>
  "long_slot_text n = ''index: 1 MAC: aa index: 2 MAC: bb Slot: '' @ replicate n CHR ''9''"

lemma rmatch_leaf:
  "(p, t, k') \<in> set (rmatch r s k) \<Longrightarrow>
   (case r of Seq a b \<Rightarrow> False | Alt a b \<Rightarrow> False | Group i a \<Rightarrow> False | _ \<Rightarrow> True) \<Longrightarrow>
   k' = k"
  by (cases r) (auto split: list.splits if_splits)

lemma rmatch_keeps:
  "(p, t, k') \<in> set (rmatch r s k) \<Longrightarrow> k n \<noteq> None \<Longrightarrow> k' n \<noteq> None"
proof (induction r arbitrary: p t k' s k)
  case (Seq r1 r2)
  then obtain p1 t1 k1 p2 where
    a: "(p1, t1, k1) \<in> set (rmatch r1 s k)" and
    b: "(p2, t, k') \<in> set (rmatch r2 t1 k1)"
    by auto
  from Seq.IH(1) [OF a Seq.prems(2)] have "k1 n \<noteq> None" .
  from Seq.IH(2) [OF b this] show ?case .
next
  case (Alt r1 r2)
  then show ?case by auto
next
  case (Group i r)
  from Group.prems(1) obtain k0 where
    a: "(p, t, k0) \<in> set (rmatch r s k)" and k': "k' = k0(i \<mapsto> p)"
    by auto
  from Group.IH [OF a Group.prems(2)] k' show ?case by simp
qed (use rmatch_leaf in force)+


lemma rmatch_binds:
  "binds n r \<Longrightarrow> (p, t, k') \<in> set (rmatch r s k) \<Longrightarrow> k' n \<noteq> None"
proof (induction r arbitrary: p t k' s k)
  case (Seq r1 r2)
  from Seq.prems(2) obtain p1 t1 k1 p2 where
    a: "(p1, t1, k1) \<in> set (rmatch r1 s k)" and
    b: "(p2, t, k') \<in> set (rmatch r2 t1 k1)"
    by auto
  from Seq.prems(1) have "binds n r1 \<or> binds n r2" by simp
  then show ?case
  proof
    assume "binds n r1"
    from Seq.IH(1) [OF this a] have "k1 n \<noteq> None" .
    with b show ?thesis by (rule rmatch_keeps)
  next
    assume "binds n r2"
    from Seq.IH(2) [OF this b] show ?thesis .
  qed
next
  case (Alt r1 r2)
  from Alt.prems(1) have b1: "binds n r1" and b2: "binds n r2" by simp_all
  from Alt.prems(2) have "(p, t, k') \<in> set (rmatch r1 s k) \<or> (p, t, k') \<in> set (rmatch r2 s k)"
    by simp
  then show ?case using Alt.IH(1) [OF b1] Alt.IH(2) [OF b2] by blast
next
  case (Group i r)
  from Group.prems(2) obtain k0 where
    a: "(p, t, k0) \<in> set (rmatch r s k)" and k': "k' = k0(i \<mapsto> p)"
    by auto
  show ?case
  proof (cases "i = n")
    case True
    with k' show ?thesis by simp
  next
    case False
    with Group.prems(1) have "binds n r" by simp
    from Group.IH [OF this a] k' False show ?thesis by simp
  qed
qed simp_all

lemma rmatch_captures:
  "captures P n r \<Longrightarrow> (p, t, k') \<in> set (rmatch r s k) \<Longrightarrow>
   (\<forall>c. k n = Some c \<longrightarrow> P c) \<Longrightarrow> (\<forall>c. k' n = Some c \<longrightarrow> P c)"
proof (induction r arbitrary: p t k' s k)
  case (Seq r1 r2)
  from Seq.prems(2) obtain p1 t1 k1 p2 where
    a: "(p1, t1, k1) \<in> set (rmatch r1 s k)" and
    b: "(p2, t, k') \<in> set (rmatch r2 t1 k1)"
    by auto
  from Seq.prems(1) have c1: "captures P n r1" and c2: "captures P n r2" by simp_all
  from Seq.IH(1) [OF c1 a Seq.prems(3)] have "\<forall>c. k1 n = Some c \<longrightarrow> P c" .
  from Seq.IH(2) [OF c2 b this] show ?case .
next
  case (Alt r1 r2)
  from Alt.prems(1) have c1: "captures P n r1" and c2: "captures P n r2" by simp_all
  from Alt.prems(2) have "(p, t, k') \<in> set (rmatch r1 s k) \<or> (p, t, k') \<in> set (rmatch r2 s k)"
    by simp
  then show ?case
  proof
    assume "(p, t, k') \<in> set (rmatch r1 s k)"
    from Alt.IH(1) [OF c1 this Alt.prems(3)] show ?thesis .
  next
    assume "(p, t, k') \<in> set (rmatch r2 s k)"
    from Alt.IH(2) [OF c2 this Alt.prems(3)] show ?thesis .
  qed
next
  case (Group i r)
  from Group.prems(2) obtain k0 where
    a: "(p, t, k0) \<in> set (rmatch r s k)" and k': "k' = k0(i \<mapsto> p)"
    by auto
  from Group.prems(1) have c: "captures P n r" by simp
  from Group.IH [OF c a Group.prems(3)] have k0: "\<forall>c. k0 n = Some c \<longrightarrow> P c" .
  show ?case
  proof (cases "i = n")
    case True
    with Group.prems(1) have "yields P r" by simp
    with a have "P p" unfolding yields_def by blast
    with True k' show ?thesis by simp
  next
    case False
    with k' k0 show ?thesis by simp
  qed
qed (use rmatch_leaf in force)+

lemma re_search_from_in:
  "re_search_from r pre s = Some m \<Longrightarrow>
   \<exists>s'. (matched m, rest m, groups m) \<in> set (rmatch r s' Map.empty)"
proof (induction s arbitrary: pre)
  case Nil
  show ?case
  proof (cases "rmatch r [] Map.empty")
    case Nil
    with Nil.prems show ?thesis by simp
  next
    case (Cons x xs)
    obtain p t k where x: "x = (p, t, k)" by (cases x)
    from Cons x Nil.prems
    have "m = \<lparr>skipped = pre, matched = p, rest = t, groups = k\<rparr>" by simp
    moreover from Cons x have "(p, t, k) \<in> set (rmatch r [] Map.empty)" by simp
    ultimately have "(matched m, rest m, groups m) \<in> set (rmatch r [] Map.empty)" by simp
    then show ?thesis ..
  qed
next
  case (Cons c s)
  show ?case
  proof (cases "rmatch r (c # s) Map.empty")
    case Nil
    with Cons.prems have "re_search_from r (pre @ [c]) s = Some m" by simp
    then show ?thesis by (rule Cons.IH)
  next
    case (Cons x xs)
    obtain p t k where x: "x = (p, t, k)" by (cases x)
    from Cons x Cons.prems
    have "m = \<lparr>skipped = pre, matched = p, rest = t, groups = k\<rparr>" by simp
    moreover from Cons x have "(p, t, k) \<in> set (rmatch r (c # s) Map.empty)" by simp
    ultimately have "(matched m, rest m, groups m) \<in> set (rmatch r (c # s) Map.empty)"
      by simp
    then show ?thesis ..
  qed
qed

lemma re_search_in:
  "re_search r s = Some m \<Longrightarrow> \<exists>s'. (matched m, rest m, groups m) \<in> set (rmatch r s' Map.empty)"
  unfolding re_search_def by (rule re_search_from_in)

lemma search_group:
  assumes "re_search r s = Some m" and "binds n r" and "captures P n r"
  shows "\<exists>g. groups m n = Some g \<and> P g"
proof -
  from assms(1) obtain s' where
    a: "(matched m, rest m, groups m) \<in> set (rmatch r s' Map.empty)"
    by (blast dest: re_search_in)
  from rmatch_binds [OF assms(2) a] obtain g where g: "groups m n = Some g" by auto
  have "\<forall>c. Map.empty n = Some c \<longrightarrow> P c" by simp
  from rmatch_captures [OF assms(3) a this] g have "P g" by blast
  with g show ?thesis by blast
qed

lemma re_finditer_in:
  "m \<in> set (re_finditer r s) \<Longrightarrow> \<exists>s'. re_search r s' = Some m"
proof (induction r s rule: re_finditer.induct)
  case (1 r s)
  show ?case
  proof (cases "re_search r s")
    case None
    with "1.prems" show ?thesis by (simp add: re_finditer.simps)
  next
    case (Some m0)
    show ?thesis
    proof (cases "matched m0 = []")
      case True
      with Some "1.prems" show ?thesis by (auto simp: re_finditer.simps [of r s])
    next
      case False
      with Some "1.prems" have "m = m0 \<or> m \<in> set (re_finditer r (rest m0))"
        by (simp add: re_finditer.simps [of r s])
      then show ?thesis
      proof
        assume "m = m0" with Some show ?thesis by blast
      next
        assume "m \<in> set (re_finditer r (rest m0))"
        with "1.IH" [OF Some False] show ?thesis .
      qed
    qed
  qed
qed

lemma yields_mono: "yields P r \<Longrightarrow> (\<And>p. P p \<Longrightarrow> Q p) \<Longrightarrow> yields Q r"
  unfolding yields_def by blast

lemma greedy_star_all: "(p, r) \<in> set (greedy_star a s) \<Longrightarrow> list_all (in_atom a) p"
  by (induction s arbitrary: p r) (auto split: if_splits)

lemma lazy_star_all: "(p, r) \<in> set (lazy_star a s) \<Longrightarrow> list_all (in_atom a) p"
  by (induction s arbitrary: p r) (auto split: if_splits)

lemma greedy_plus_all:
  "(p, r) \<in> set (greedy_plus a s) \<Longrightarrow> p \<noteq> [] \<and> list_all (in_atom a) p"
  by (cases s) (auto split: if_splits dest: greedy_star_all)

lemma yields_plus: "yields (\<lambda>p. p \<noteq> [] \<and> list_all (in_atom a) p) (Plus a)"
  unfolding yields_def by (auto dest: greedy_plus_all)

lemma yields_star: "yields (list_all (in_atom a)) (Star a)"
  unfolding yields_def by (auto dest: greedy_star_all)

lemma yields_opt: "yields (\<lambda>p. p = [] \<or> p = [c]) (Opt (Ch c))"
proof -
  have "(p, r) \<in> set (optional (Ch c) s) \<Longrightarrow> p = [] \<or> p = [c]" for p r s
    by (cases s) (auto split: if_splits)
  then show ?thesis unfolding yields_def by auto
qed

lemma yields_seq:
  "yields P a \<Longrightarrow> yields Q b \<Longrightarrow> yields (\<lambda>p. \<exists>x y. p = x @ y \<and> P x \<and> Q y) (Seq a b)"
  unfolding yields_def by fastforce

lemma yields_alt: "yields P a \<Longrightarrow> yields P b \<Longrightarrow> yields P (Alt a b)"
  unfolding yields_def by simp blast

lemma yields_cat_lit: "yields (\<lambda>p. p = w) (cat (map (\<lambda>c. Atom (Ch c)) w))"
proof (induction w)
  case Nil
  show ?case unfolding yields_def by simp
next
  case (Cons c w)
  have "yields (\<lambda>p. p = [c]) (Atom (Ch c))"
    unfolding yields_def by (auto split: list.splits if_splits)
  from yields_seq [OF this Cons] show ?case
    by (simp add: yields_def)
qed

lemma yields_lit: "yields (\<lambda>p. p = w) (lit w)"
  unfolding lit_def by (rule yields_cat_lit)

lemma captures_cat [simp]: "captures P n (cat rs) = list_all (captures P n) rs"
  by (induction rs) simp_all

lemma binds_cat [simp]: "binds n (cat rs) = list_ex (binds n) rs"
  by (induction rs) simp_all

lemma captures_lit [simp]: "captures P n (lit w)"
  by (simp add: lit_def list_all_iff)

lemma binds_lit [simp]: "\<not> binds n (lit w)"
  by (simp add: lit_def list_ex_iff)

lemma yields_digits: "yields digits (Plus Digit)"
  using yields_plus [of Digit] by (simp add: digits_def yields_def list_all_iff)

lemma str_group_bound:
  assumes "re_search r s = Some m" and "binds n r"
  shows "\<exists>g. groups m n = Some g \<and> str_group m n = Inr g"
proof -
  have "captures (\<lambda>g. True) n r" by (induction r) (simp_all add: yields_def)
  from search_group [OF assms this] show ?thesis by (auto simp: str_group_def)
qed

lemma longest_number_head: "length (takeWhile is_digit s) \<le> longest_number s"
  by (cases s) simp_all

lemma longest_number_suffix: "longest_number s \<le> longest_number (a @ s)"
  by (induction a) (simp_all add: le_max_iff_disj)

lemma takeWhile_prefix_le: "length (takeWhile P s) \<le> length (takeWhile P (s @ t))"
  by (induction s) simp_all

lemma longest_number_prefix: "longest_number s \<le> longest_number (s @ t)"
proof (induction s)
  case Nil
  show ?case by simp
next
  case (Cons c s)
  have "length (takeWhile is_digit (c # s)) \<le> length (takeWhile is_digit ((c # s) @ t))"
    by (rule takeWhile_prefix_le)
  with Cons show ?case by (simp add: le_max_iff_disj del: takeWhile.simps) linarith
qed

lemma digit_run_bound:
  assumes "s = a @ g @ b" and "list_all is_digit g"
  shows "length g \<le> longest_number s"
proof -
  from assms(2) have "takeWhile is_digit (g @ b) = g @ takeWhile is_digit b"
    by (simp add: list_all_iff)
  then have "length g \<le> length (takeWhile is_digit (g @ b))" by simp
  also have "\<dots> \<le> longest_number (g @ b)" by (rule longest_number_head)
  also have "\<dots> \<le> longest_number (a @ g @ b)" by (rule longest_number_suffix)
  finally show ?thesis using assms(1) by simp
qed

lemma short_numbers_part:
  assumes "short_numbers s" and "s = a @ b @ c"
  shows "short_numbers b"
proof -
  have "longest_number b \<le> longest_number (b @ c)" by (rule longest_number_prefix)
  also have "\<dots> \<le> longest_number (a @ b @ c)" by (rule longest_number_suffix)
  finally show ?thesis using assms by (simp add: short_numbers_def)
qed

lemma short_text: "length s \<le> max_str_digits \<Longrightarrow> short_numbers s"
proof -
  have "longest_number s \<le> length s"
  proof (induction s)
    case Nil
    show ?case by simp
  next
    case (Cons c s)
    have "length (takeWhile is_digit (c # s)) \<le> length (c # s)"
      by (rule length_takeWhile_le)
    with Cons show ?case by (simp del: takeWhile.simps)
  qed
  then show "length s \<le> max_str_digits \<Longrightarrow> short_numbers s"
    by (simp add: short_numbers_def)
qed

lemma rmatch_within:
  "(p, t, k') \<in> set (rmatch r s k) \<Longrightarrow> k' n = Some g \<Longrightarrow>
   k n = Some g \<or> (\<exists>a b. s = a @ g @ b)"
proof (induction r arbitrary: p t k' s k)
  case (Seq r1 r2)
  from Seq.prems(1) obtain p1 t1 k1 p2 where
    a: "(p1, t1, k1) \<in> set (rmatch r1 s k)" and
    b: "(p2, t, k') \<in> set (rmatch r2 t1 k1)"
    by auto
  from rmatch_split [OF a] have s: "s = p1 @ t1" .
  from Seq.IH(2) [OF b Seq.prems(2)] have "k1 n = Some g \<or> (\<exists>a b. t1 = a @ g @ b)" .
  then show ?case
  proof
    assume "k1 n = Some g"
    from Seq.IH(1) [OF a this] show ?thesis .
  next
    assume "\<exists>a b. t1 = a @ g @ b"
    then obtain a b where "t1 = a @ g @ b" by blast
    with s have "s = (p1 @ a) @ g @ b" by simp
    then show ?thesis by blast
  qed
next
  case (Alt r1 r2)
  from Alt.prems(1) have "(p, t, k') \<in> set (rmatch r1 s k) \<or> (p, t, k') \<in> set (rmatch r2 s k)"
    by simp
  then show ?case
  proof
    assume "(p, t, k') \<in> set (rmatch r1 s k)"
    from Alt.IH(1) [OF this Alt.prems(2)] show ?thesis .
  next
    assume "(p, t, k') \<in> set (rmatch r2 s k)"
    from Alt.IH(2) [OF this Alt.prems(2)] show ?thesis .
  qed
next
  case (Group i r)
  from Group.prems(1) obtain k0 where
    a: "(p, t, k0) \<in> set (rmatch r s k)" and k': "k' = k0(i \<mapsto> p)"
    by auto
  show ?case
  proof (cases "i = n")
    case True
    with k' Group.prems(2) have "g = p" by simp
    with rmatch_split [OF a] have "s = [] @ g @ t" by simp
    then show ?thesis by blast
  next
    case False
    with k' Group.prems(2) have "k0 n = Some g" by simp
    from Group.IH [OF a this] show ?thesis .
  qed
qed (use rmatch_leaf in force)+

lemma re_search_within:
  assumes "re_search r s = Some m" and "groups m n = Some g"
  shows "\<exists>a b. s = a @ g @ b"
proof -
  from re_search_in [OF assms(1)] obtain s' where
    a: "(matched m, rest m, groups m) \<in> set (rmatch r s' Map.empty)"
    by blast
  from rmatch_split [OF a] have s': "s' = matched m @ rest m" .
  from re_search_split [OF assms(1)] s' have s: "s = skipped m @ s'" by simp
  from rmatch_within [OF a assms(2)] obtain a' b where "s' = a' @ g @ b" by auto
  with s have "s = (skipped m @ a') @ g @ b" by simp
  then show ?thesis by blast
qed

lemma re_finditer_from:
  "m \<in> set (re_finditer r s) \<Longrightarrow> \<exists>a s'. s = a @ s' \<and> re_search r s' = Some m"
proof (induction r s rule: re_finditer.induct)
  case (1 r s)
  show ?case
  proof (cases "re_search r s")
    case None
    with "1.prems" show ?thesis by (simp add: re_finditer.simps)
  next
    case (Some m0)
    show ?thesis
    proof (cases "m = m0")
      case True
      with Some have "s = [] @ s \<and> re_search r s = Some m" by simp
      then show ?thesis by blast
    next
      case False
      with Some "1.prems" have ne: "matched m0 \<noteq> []" and "m \<in> set (re_finditer r (rest m0))"
        by (auto simp: re_finditer.simps [of r s] split: if_splits)
      with "1.IH" [OF Some ne] obtain a s' where
        "rest m0 = a @ s'" "re_search r s' = Some m"
        by blast
      with re_search_split [OF Some] have "s = (skipped m0 @ matched m0 @ a) @ s'"
        "re_search r s' = Some m"
        by simp_all
      then show ?thesis by blast
    qed
  qed
qed

lemma re_finditer_within:
  assumes "m \<in> set (re_finditer r s)" and "groups m n = Some g"
  shows "\<exists>a b. s = a @ g @ b"
proof -
  from re_finditer_from [OF assms(1)] obtain a s' where
    s: "s = a @ s'" and "re_search r s' = Some m"
    by blast
  from re_search_within [OF this(2) assms(2)] obtain a' b where "s' = a' @ g @ b" by blast
  with s have "s = (a @ a') @ g @ b" by simp
  then show ?thesis by blast
qed

lemma re_split_within:
  "b \<in> set (re_split r s) \<Longrightarrow> \<exists>a c. s = a @ b @ c"
proof (induction r s rule: re_split.induct)
  case (1 r s)
  show ?case
  proof (cases "re_search r s")
    case None
    with "1.prems" have "s = [] @ b @ []" by (simp add: re_split.simps)
    then show ?thesis by blast
  next
    case (Some m)
    show ?thesis
    proof (cases "matched m = []")
      case True
      with Some "1.prems" have "s = [] @ b @ []" by (simp add: re_split.simps [of r s])
      then show ?thesis by blast
    next
      case False
      with Some "1.prems" have "b = skipped m \<or> b \<in> set (re_split r (rest m))"
        by (simp add: re_split.simps [of r s])
      then show ?thesis
      proof
        assume "b = skipped m"
        with re_search_split [OF Some] have "s = [] @ b @ (matched m @ rest m)" by simp
        then show ?thesis by blast
      next
        assume "b \<in> set (re_split r (rest m))"
        with "1.IH" [OF Some False] obtain a c where "rest m = a @ b @ c" by blast
        with re_search_split [OF Some] have "s = (skipped m @ matched m @ a) @ b @ c" by simp
        then show ?thesis by blast
      qed
    qed
  qed
qed


lemma outcome_and_then:
  "outcome ok P x \<Longrightarrow> (\<And>v. P v \<Longrightarrow> outcome ok Q (f v)) \<Longrightarrow> outcome ok Q (and_then x f)"
  by (cases x) (simp_all add: outcome_def and_then_def)

lemma outcome_on_match:
  "(re_search pat s = None \<Longrightarrow> Q c) \<Longrightarrow>
   (\<And>m. re_search pat s = Some m \<Longrightarrow> outcome ok Q (f m c)) \<Longrightarrow>
   outcome ok Q (on_match pat s f c)"
  by (cases "re_search pat s") (simp_all add: on_match_def outcome_def)

lemma outcome_holds: "holds Q x \<Longrightarrow> outcome ok Q x"
  by (auto simp: holds_def outcome_def)

lemma outcome_mono: "outcome ok Q x \<Longrightarrow> (ok' \<Longrightarrow> ok) \<Longrightarrow> outcome ok' Q x"
  by (cases x) (auto simp: outcome_def)


lemma outcome_returns: "outcome ok Q x \<Longrightarrow> ok \<Longrightarrow> holds Q x"
  by (cases x) (auto simp: outcome_def holds_def)

lemma outcome_value: "outcome ok Q x \<Longrightarrow> x = Inr v \<Longrightarrow> Q v"
  by (simp add: outcome_def)

lemma outcome_error: "outcome ok Q x \<Longrightarrow> x = Inl e \<Longrightarrow> e = ValueError \<and> \<not> ok"
  by (simp add: outcome_def)

lemma py_int_digits:
  "digits g \<Longrightarrow> length g \<le> max_str_digits \<Longrightarrow> py_int g = Inr (dec_val g)"
  by (cases g) (auto simp: digits_def py_int_def is_digit_def)

lemma py_int_long:
  "digits g \<Longrightarrow> max_str_digits < length g \<Longrightarrow> py_int g = Inl ValueError"
  by (cases g) (auto simp: digits_def py_int_def is_digit_def)

lemma py_int_outcome:
  "digits g \<Longrightarrow> outcome (length g \<le> max_str_digits) (\<lambda>v. v = dec_val g) (py_int g)"
  by (cases "length g \<le> max_str_digits")
     (simp_all add: py_int_digits py_int_long outcome_def)

lemma py_int_signed:
  assumes "g = x @ y" and "x = [] \<or> x = ''-''" and "digits y"
  shows "outcome (length y \<le> max_str_digits) (\<lambda>v. True) (py_int g)"
proof -
  from assms(3) obtain c t where y: "y = c # t" by (cases y) (auto simp: digits_def)
  from assms(2) show ?thesis
  proof
    assume "x = []"
    with assms py_int_outcome [of y] show ?thesis by (auto simp: outcome_def split: sum.splits)
  next
    assume "x = ''-''"
    with assms y show ?thesis by (simp add: py_int_def digits_def outcome_def)
  qed
qed


lemma holds_Inr: "Q v \<Longrightarrow> holds Q (Inr v)"
  by (simp add: holds_def)

lemma holds_and_then:
  "holds P x \<Longrightarrow> (\<And>v. P v \<Longrightarrow> holds Q (f v)) \<Longrightarrow> holds Q (and_then x f)"
  by (auto simp: holds_def and_then_def)

lemma holds_on_match:
  "(re_search pat s = None \<Longrightarrow> Q c) \<Longrightarrow>
   (\<And>m. re_search pat s = Some m \<Longrightarrow> holds Q (f m c)) \<Longrightarrow>
   holds Q (on_match pat s f c)"
  by (cases "re_search pat s") (auto simp: on_match_def holds_def)

lemma holds_weaken: "holds P x \<Longrightarrow> (\<And>v. P v \<Longrightarrow> Q v) \<Longrightarrow> holds Q x"
  by (auto simp: holds_def)


lemma holds_group_strip:
  "re_search r s = Some m \<Longrightarrow> binds n r \<Longrightarrow> holds (\<lambda>v. True) (group_strip m n)"
  by (drule (1) str_group_bound) (auto simp: holds_def group_strip_def and_then_def)


lemma re_finditer_group:
  assumes "m \<in> set (re_finditer r s)" and "binds n r" and "captures P n r"
  shows "\<exists>g. groups m n = Some g \<and> P g"
proof -
  from assms(1) obtain s' where "re_search r s' = Some m" by (blast dest: re_finditer_in)
  from search_group [OF this assms(2,3)] show ?thesis .
qed



lemma int_items_outcome:
  "(\<And>m. m \<in> set ms \<Longrightarrow> \<exists>g. groups m 2 = Some g \<and> digits g \<and> (ok \<longrightarrow> length g \<le> max_str_digits))
   \<Longrightarrow> outcome ok (\<lambda>vs. vs = map (\<lambda>m. dec_val (tuple_item m 1)) ms) (int_items ms)"
proof (induction ms)
  case Nil
  show ?case by (simp add: outcome_def)
next
  case (Cons m ms)
  from Cons.prems [of m] obtain g where
    g: "groups m 2 = Some g" "digits g" "ok \<longrightarrow> length g \<le> max_str_digits"
    by auto
  from g(1) have t: "tuple_item m 1 = g" by (simp add: tuple_item_def numeral_2_eq_2)
  from g(3) have "ok \<Longrightarrow> length g \<le> max_str_digits" by simp
  with py_int_outcome [OF g(2)]
  have a: "outcome ok (\<lambda>v. v = dec_val (tuple_item m 1)) (py_int (tuple_item m 1))"
    unfolding t by (rule outcome_mono)
  have b: "outcome ok (\<lambda>vs. vs = map (\<lambda>m. dec_val (tuple_item m 1)) ms) (int_items ms)"
    by (rule Cons.IH) (simp add: Cons.prems)
  from a b show ?case
    by (auto simp: outcome_def and_then_def split: sum.splits)
qed

lemma int_items_finditer:
  assumes "binds 2 r" and "captures digits 2 r"
  shows "outcome (short_numbers s)
     (\<lambda>vs. vs = map (\<lambda>m. dec_val (tuple_item m 1)) (re_finditer r s))
     (int_items (re_finditer r s))"
proof (rule int_items_outcome)
  fix m assume m: "m \<in> set (re_finditer r s)"
  from re_finditer_group [OF m assms] obtain g where g: "groups m 2 = Some g" "digits g"
    by blast
  from re_finditer_within [OF m g(1)] obtain a b where "s = a @ g @ b" by blast
  with g(2) have "length g \<le> longest_number s"
    by (auto intro: digit_run_bound simp: digits_def)
  with g show "\<exists>g. groups m 2 = Some g \<and> digits g
      \<and> (short_numbers s \<longrightarrow> length g \<le> max_str_digits)"
    by (auto simp: short_numbers_def)
qed

lemma core_items:
  "outcome (short_numbers s)
     (\<lambda>vs. vs = map (\<lambda>m. dec_val (tuple_item m 1)) (re_finditer core_pattern s))
     (int_items (re_finditer core_pattern s))"
  "outcome (short_numbers s)
     (\<lambda>vs. vs = map (\<lambda>m. dec_val (tuple_item m 1)) (re_finditer core_1min_pattern s))
     (int_items (re_finditer core_1min_pattern s))"
  "outcome (short_numbers s)
     (\<lambda>vs. vs = map (\<lambda>m. dec_val (tuple_item m 1)) (re_finditer core_5min_pattern s))
     (int_items (re_finditer core_5min_pattern s))"
  by (rule int_items_finditer;
      simp add: core_pattern_def core_1min_pattern_def core_5min_pattern_def yields_digits)+

lemma parse_cpu_outcome:
  "outcome (short_numbers s)
     (\<lambda>v. cores v = core_values s
          \<and> (core_values s \<noteq> [] \<longrightarrow>
               current v = sum_list (core_values s) div int (length (core_values s)))
          \<and> (core_values s = [] \<longrightarrow> current v = 0)
          \<and> (re_finditer core_1min_pattern s = [] \<longrightarrow> avg_1min v = 0)
          \<and> (re_finditer core_5min_pattern s = [] \<longrightarrow> avg_5min v = 0))
     (parse_cpu s)"
  using core_items [of s]
  unfolding parse_cpu_def Let_def average_def and_then_def py_floordiv_def core_values_def
    outcome_def
  by (auto split: sum.splits)

lemma in_codes: "(of_char c :: nat) \<in> of_char ` set w \<Longrightarrow> c \<in> set w"
  by auto

lemma of_char_range:
  "(of_char c :: nat) \<in> {97..102} \<Longrightarrow> c \<in> set ''abcdef''"
  "(of_char c :: nat) \<in> {65..70} \<Longrightarrow> c \<in> set ''ABCDEF''"
proof -
  have a: "{97..102 :: nat} = of_char ` set ''abcdef''" by (simp, auto)
  have b: "{65..70 :: nat} = of_char ` set ''ABCDEF''" by (simp, auto)
  show "(of_char c :: nat) \<in> {97..102} \<Longrightarrow> c \<in> set ''abcdef''"
    unfolding a by (rule in_codes)
  show "(of_char c :: nat) \<in> {65..70} \<Longrightarrow> c \<in> set ''ABCDEF''"
    unfolding b by (rule in_codes)
qed

lemma hex_class:
  assumes "in_atom (OneOf [IDigit, IRange CHR ''a'' CHR ''f'', IRange CHR ''A'' CHR ''F'',
     IChar CHR '':'']) c"
  shows "c \<in> hex_chars"
proof -
  from assms have "is_digit c \<or> (of_char c :: nat) \<in> {97..102}
      \<or> (of_char c :: nat) \<in> {65..70} \<or> c = CHR '':''"
    by simp
  then consider "c \<in> set ''0123456789''" | "c \<in> set ''abcdef''" | "c \<in> set ''ABCDEF''"
    | "c = CHR '':''"
    using of_char_range [of c] unfolding is_digit_def by blast
  moreover have "set ''0123456789'' \<subseteq> hex_chars" "set ''abcdef'' \<subseteq> hex_chars"
    "set ''ABCDEF'' \<subseteq> hex_chars" "CHR '':'' \<in> hex_chars"
    unfolding hex_chars_def by simp_all
  ultimately show ?thesis by cases blast+
qed

lemma yields_hex:
  "yields hex_text (Plus (OneOf [IDigit, IRange CHR ''a'' CHR ''f'', IRange CHR ''A'' CHR ''F'',
     IChar CHR '':'']))"
proof (rule yields_mono [OF yields_plus])
  fix p :: string
  assume "p \<noteq> [] \<and> list_all (in_atom (OneOf [IDigit, IRange CHR ''a'' CHR ''f'',
     IRange CHR ''A'' CHR ''F'', IChar CHR '':''])) p"
  then have "p \<noteq> []" and "\<forall>c \<in> set p. in_atom (OneOf [IDigit, IRange CHR ''a'' CHR ''f'',
     IRange CHR ''A'' CHR ''F'', IChar CHR '':'']) c"
    unfolding list_all_iff by blast+
  with hex_class show "hex_text p"
    unfolding hex_text_def by blast
qed

lemma mac_group:
  "re_search mac_pat b = Some m \<Longrightarrow> \<exists>g. groups m 1 = Some g \<and> hex_text g"
  by (erule search_group) (simp_all add: mac_pat_def yields_hex)

lemma block_mac_cases:
  "(re_search mac_pat b = None \<and> block_mac b = None)
   \<or> (\<exists>m g. re_search mac_pat b = Some m \<and> groups m 1 = Some g \<and> hex_text g
        \<and> block_mac b = Some (upper g))"
proof (cases "re_search mac_pat b")
  case None
  then show ?thesis by (simp add: block_mac_def)
next
  case (Some m)
  from mac_group [OF this] obtain g where "groups m 1 = Some g" "hex_text g" by blast
  with Some show ?thesis by (simp add: block_mac_def)
qed

lemma step_strip:
  assumes "binds 1 pat" and "Q c" and "\<And>g. Q (upd g c)"
  shows "holds Q (on_match pat b (\<lambda>m c. and_then (group_strip m 1) (\<lambda>g. Inr (upd g c))) c)"
proof (rule holds_on_match)
  fix m assume "re_search pat b = Some m"
  from holds_group_strip [OF this assms(1)]
  show "holds Q (and_then (group_strip m 1) (\<lambda>g. Inr (upd g c)))"
    by (rule holds_and_then) (simp add: holds_def assms(3))
qed (rule assms(2))

lemma step_raw:
  assumes "Q c" and "\<And>m. Q (upd m c)"
  shows "holds Q (on_match pat b (\<lambda>m c. Inr (upd m c)) c)"
  by (rule holds_on_match) (simp_all add: assms holds_def)

lemma step_ssid:
  assumes "Q c" and "\<And>g. Q (c\<lparr>ssid := Some g\<rparr>)"
  shows "holds Q (set_ssid b c)"
proof (cases "re_search display_ssid_pat b")
  case (Some m)
  have "holds (\<lambda>v. True) (group_strip m 1)"
    by (rule holds_group_strip [OF Some]) (simp add: display_ssid_pat_def)
  then show ?thesis
    unfolding set_ssid_def Some option.case
    by (rule holds_and_then) (simp add: holds_def assms(2))
next
  case None
  show ?thesis
  proof (cases "re_search ssid_pat b")
    case None': None
    with None show ?thesis by (simp add: set_ssid_def holds_def assms(1))
  next
    case (Some m)
    have "holds (\<lambda>v. True) (group_strip m 1)"
      by (rule holds_group_strip [OF Some]) (simp add: ssid_pat_def)
    then have "holds Q (and_then (group_strip m 1) (\<lambda>g. Inr (c\<lparr>ssid := Some g\<rparr>)))"
      by (rule holds_and_then) (simp add: holds_def assms(2))
    with None Some show ?thesis by (simp add: set_ssid_def)
  qed
qed

lemma yields_signed:
  "yields (\<lambda>g. \<exists>x y. g = x @ y \<and> (x = [] \<or> x = ''-'') \<and> digits y)
     (Seq (Opt (Ch CHR ''-'')) (Plus Digit))"
  by (rule yields_seq [OF yields_opt yields_digits])

lemma to_upper_hex: "c \<in> hex_chars \<Longrightarrow> to_upper c \<in> upper_hex_chars"
proof -
  have "\<forall>c \<in> set ''0123456789abcdefABCDEF:''. to_upper c \<in> set ''0123456789ABCDEF:''"
    by (simp add: to_upper_def)
  then show "c \<in> hex_chars \<Longrightarrow> to_upper c \<in> upper_hex_chars"
    unfolding hex_chars_def upper_hex_chars_def by (rule bspec)
qed

lemma to_upper_fixed: "c \<in> upper_hex_chars \<Longrightarrow> to_upper c = c"
proof -
  have "\<forall>c \<in> set ''0123456789ABCDEF:''. to_upper c = c"
    by (simp add: to_upper_def)
  then show "c \<in> upper_hex_chars \<Longrightarrow> to_upper c = c"
    unfolding upper_hex_chars_def by (rule bspec)
qed

lemma upper_hex:
  assumes "hex_text g"
  shows "upper g \<noteq> []" and "set (upper g) \<subseteq> upper_hex_chars"
    and "upper (upper g) = upper g"
proof -
  from assms show "upper g \<noteq> []" by (simp add: hex_text_def upper_def)
  from assms have "set g \<subseteq> hex_chars" by (simp add: hex_text_def)
  with to_upper_hex show c: "set (upper g) \<subseteq> upper_hex_chars"
    unfolding upper_def by auto
  with to_upper_fixed have "\<forall>c \<in> set (upper g). to_upper c = c" by blast
  then show "upper (upper g) = upper g"
    unfolding upper_def [of "upper g"] by (simp add: map_idI)
qed

lemma step_int:
  assumes "binds 1 pat" and "captures P 1 pat"
    and "\<And>g. P g \<Longrightarrow> \<exists>x y. g = x @ y \<and> (x = [] \<or> x = ''-'') \<and> digits y"
    and "Q c" and "\<And>v. Q (upd v c)"
  shows "outcome (short_numbers b) Q
     (on_match pat b (\<lambda>m c. and_then (int_group m 1) (\<lambda>v. Inr (upd v c))) c)"
proof (rule outcome_on_match)
  fix m assume m: "re_search pat b = Some m"
  from search_group [OF m assms(1,2)] obtain g where g: "groups m 1 = Some g" "P g" by blast
  from assms(3) [OF g(2)] obtain x y where
    xy: "g = x @ y" "x = [] \<or> x = ''-''" "digits y"
    by blast
  from re_search_within [OF m g(1)] obtain a c' where "b = a @ g @ c'" by blast
  with xy(1) have "b = (a @ x) @ y @ c'" by simp
  moreover from xy(3) have "list_all is_digit y" by (simp add: digits_def)
  ultimately have "length y \<le> longest_number b" by (rule digit_run_bound)
  then have "short_numbers b \<Longrightarrow> length y \<le> max_str_digits"
    by (simp add: short_numbers_def)
  with py_int_signed [OF xy] have "outcome (short_numbers b) (\<lambda>v. True) (py_int g)"
    by (rule outcome_mono)
  with g(1) have "outcome (short_numbers b) (\<lambda>v. True) (int_group m 1)"
    by (simp add: int_group_def)
  then show "outcome (short_numbers b) Q (and_then (int_group m 1) (\<lambda>v. Inr (upd v c)))"
    by (rule outcome_and_then) (simp add: outcome_def assms(5))
qed (rule assms(4))

lemma digits_parts: "digits g \<Longrightarrow> \<exists>x y. g = x @ y \<and> (x = [] \<or> x = ''-'') \<and> digits y"
  by auto

lemma parse_client_block_outcome:
  "outcome (short_numbers b) (\<lambda>c. mac c = block_mac b) (parse_client_block b)"
  unfolding parse_client_block_def
proof (intro outcome_and_then [where P = "\<lambda>c. mac c = block_mac b"])
  show "outcome (short_numbers b) (\<lambda>c. mac c = block_mac b)
     (on_match mac_pat b (\<lambda>m c. and_then (str_group m 1) (\<lambda>g. Inr (c\<lparr>mac := Some (upper g)\<rparr>)))
        no_client)"
  proof (rule outcome_on_match)
    assume "re_search mac_pat b = None"
    then show "mac no_client = block_mac b" by (simp add: no_client_def block_mac_def)
  next
    fix m assume m: "re_search mac_pat b = Some m"
    from mac_group [OF m] obtain g where g: "groups m 1 = Some g" by blast
    with m show "outcome (short_numbers b) (\<lambda>c. mac c = block_mac b)
       (and_then (str_group m 1) (\<lambda>g. Inr (no_client\<lparr>mac := Some (upper g)\<rparr>)))"
      by (simp add: str_group_def and_then_def outcome_def block_mac_def)
  qed
next
  fix c :: client assume "mac c = block_mac b"
  then show "outcome (short_numbers b) (\<lambda>c. mac c = block_mac b)
     (on_match ipv4_pat b (\<lambda>m c. Inr (c\<lparr>ip := groups m 1\<rparr>)) c)"
    by (intro outcome_holds step_raw) simp_all
next
  fix c :: client assume "mac c = block_mac b"
  then show "outcome (short_numbers b) (\<lambda>c. mac c = block_mac b) (set_ssid b c)"
    by (intro outcome_holds step_ssid) simp_all
next
  fix c :: client assume "mac c = block_mac b"
  then show "outcome (short_numbers b) (\<lambda>c. mac c = block_mac b)
     (on_match security_pat b
        (\<lambda>m c. and_then (group_strip m 1) (\<lambda>g. Inr (c\<lparr>security := Some g\<rparr>))) c)"
    by (intro outcome_holds step_strip) (simp_all add: security_pat_def)
next
  fix c :: client assume "mac c = block_mac b"
  then show "outcome (short_numbers b) (\<lambda>c. mac c = block_mac b)
     (on_match rssi_dbm_pat b
        (\<lambda>m c. and_then (int_group m 1) (\<lambda>v. Inr (c\<lparr>rssi_dbm := Some v\<rparr>))) c)"
    by (intro step_int [where P = "\<lambda>g. \<exists>x y. g = x @ y \<and> (x = [] \<or> x = ''-'') \<and> digits y"])
       (simp_all add: rssi_dbm_pat_def yields_signed)
next
  fix c :: client assume "mac c = block_mac b"
  then show "outcome (short_numbers b) (\<lambda>c. mac c = block_mac b)
     (on_match rssi_pat b
        (\<lambda>m c. and_then (int_group m 1) (\<lambda>v. Inr (c\<lparr>rssi_percent := Some v\<rparr>))) c)"
    by (intro step_int [where P = digits] digits_parts) (simp_all add: rssi_pat_def yields_digits)
next
  fix c :: client assume "mac c = block_mac b"
  then show "outcome (short_numbers b) (\<lambda>c. mac c = block_mac b)
     (on_match band_pat b (\<lambda>m c. Inr (c\<lparr>band := groups m 1\<rparr>)) c)"
    by (intro outcome_holds step_raw) simp_all
next
  fix c :: client assume "mac c = block_mac b"
  then show "outcome (short_numbers b) (\<lambda>c. mac c = block_mac b)
     (on_match slot_pat b
        (\<lambda>m c. and_then (int_group m 1) (\<lambda>v. Inr (c\<lparr>slot := Some v\<rparr>))) c)"
    by (intro step_int [where P = digits] digits_parts) (simp_all add: slot_pat_def yields_digits)
next
  fix c :: client assume "mac c = block_mac b"
  then show "outcome (short_numbers b) (\<lambda>c. mac c = block_mac b)
     (on_match tx_pat b
        (\<lambda>m c. and_then (int_group m 1) (\<lambda>v. Inr (c\<lparr>tx_rate := Some v\<rparr>))) c)"
    by (intro step_int [where P = digits] digits_parts) (simp_all add: tx_pat_def yields_digits)
next
  fix c :: client assume "mac c = block_mac b"
  then show "outcome (short_numbers b) (\<lambda>c. mac c = block_mac b)
     (on_match rx_pat b
        (\<lambda>m c. and_then (int_group m 1) (\<lambda>v. Inr (c\<lparr>rx_rate := Some v\<rparr>))) c)"
    by (intro step_int [where P = digits] digits_parts) (simp_all add: rx_pat_def yields_digits)
next
  fix c :: client assume "mac c = block_mac b"
  then show "outcome (short_numbers b) (\<lambda>c. mac c = block_mac b)
     (on_match capability_pat b
        (\<lambda>m c. and_then (group_strip m 1) (\<lambda>g. Inr (c\<lparr>capability := Some g\<rparr>))) c)"
    by (intro outcome_holds step_strip) (simp_all add: capability_pat_def)
next
  fix c :: client assume "mac c = block_mac b"
  then show "outcome (short_numbers b) (\<lambda>c. mac c = block_mac b)
     (on_match time_pat b
        (\<lambda>m c. and_then (group_strip m 1) (\<lambda>g. Inr (c\<lparr>connected_since := Some g\<rparr>))) c)"
    by (intro outcome_holds step_strip) (simp_all add: time_pat_def)
qed

lemma parse_client_block_cases:
  "(parse_client_block b = Inr (client_of b) \<and> mac (client_of b) = block_mac b)
   \<or> (parse_client_block b = Inl ValueError \<and> \<not> short_numbers b)"
  using parse_client_block_outcome [of b]
  by (cases "parse_client_block b") (simp_all add: outcome_def client_of_def)

lemma has_mac_iff:
  assumes "parse_client_block b = Inr (client_of b)"
  shows "has_mac (client_of b) \<longleftrightarrow> re_search mac_pat b \<noteq> None"
proof -
  from assms parse_client_block_cases [of b] have "mac (client_of b) = block_mac b" by auto
  with block_mac_cases [of b] upper_hex(1) show ?thesis
    by (auto simp: has_mac_def)
qed

lemma clients_loop_outcome:
  "outcome (\<forall>b \<in> set bs. short_numbers b)
     (\<lambda>cs. cs = acc @ filter has_mac (map client_of bs)
          \<and> (\<forall>b \<in> set bs. parse_client_block b = Inr (client_of b)))
     (clients_loop bs acc)"
proof (induction bs arbitrary: acc)
  case Nil
  show ?case by (simp add: outcome_def)
next
  case (Cons b bs)
  from parse_client_block_cases [of b] show ?case
  proof
    assume a: "parse_client_block b = Inr (client_of b) \<and> mac (client_of b) = block_mac b"
    from Cons [of "if has_mac (client_of b) then acc @ [client_of b] else acc"] a
    show ?thesis
      by (cases "clients_loop bs (if has_mac (client_of b) then acc @ [client_of b] else acc)")
         (auto simp: outcome_def and_then_def)
  next
    assume "parse_client_block b = Inl ValueError \<and> \<not> short_numbers b"
    then show ?thesis by (simp add: outcome_def and_then_def)
  qed
qed

lemma parse_clients_outcome:
  "outcome (short_numbers s)
     (\<lambda>cs. cs = filter has_mac (map client_of (drop 1 (re_split index_pat s)))
          \<and> (\<forall>b \<in> set (drop 1 (re_split index_pat s)). parse_client_block b = Inr (client_of b)))
     (parse_clients s)"
proof -
  have "\<forall>b \<in> set (drop 1 (re_split index_pat s)). short_numbers b" if "short_numbers s"
  proof
    fix b assume "b \<in> set (drop 1 (re_split index_pat s))"
    then have "b \<in> set (re_split index_pat s)" by (rule in_set_dropD)
    from re_split_within [OF this] obtain a c where "s = a @ b @ c" by blast
    with that show "short_numbers b" by (rule short_numbers_part)
  qed
  with clients_loop_outcome [of "drop 1 (re_split index_pat s)" "[]"] show ?thesis
    unfolding parse_clients_def by (auto intro: outcome_mono)
qed


lemma yields_status:
  "yields (\<lambda>p. p = ''Up'' \<or> p = ''Down'' \<or> p = ''n/a'')
     (Alt (lit ''Up'') (Alt (lit ''Down'') (lit ''n/a'')))"
  by (intro yields_alt yields_mono [OF yields_lit]) simp_all

lemma dot_class: "in_atom (OneOf [IDigit, IChar CHR ''.'']) c \<Longrightarrow> c \<in> dot_chars"
proof -
  assume "in_atom (OneOf [IDigit, IChar CHR ''.'']) c"
  then have "c \<in> set ''0123456789'' \<or> c = CHR ''.''" by (simp add: is_digit_def)
  moreover have "set ''0123456789'' \<subseteq> dot_chars" "CHR ''.'' \<in> dot_chars"
    unfolding dot_chars_def by simp_all
  ultimately show ?thesis by blast
qed

lemma yields_dotted:
  "yields (\<lambda>p. p = ''n/a'' \<or> (p \<noteq> [] \<and> set p \<subseteq> dot_chars))
     (Alt (Plus (OneOf [IDigit, IChar CHR ''.''])) (lit ''n/a''))"
proof (intro yields_alt)
  show "yields (\<lambda>p. p = ''n/a'' \<or> (p \<noteq> [] \<and> set p \<subseteq> dot_chars))
     (Plus (OneOf [IDigit, IChar CHR ''.'']))"
  proof (rule yields_mono [OF yields_plus])
    fix p :: string
    assume "p \<noteq> [] \<and> list_all (in_atom (OneOf [IDigit, IChar CHR ''.''])) p"
    then have "p \<noteq> []" "\<forall>c \<in> set p. in_atom (OneOf [IDigit, IChar CHR ''.'']) c"
      unfolding list_all_iff by blast+
    with dot_class show "p = ''n/a'' \<or> (p \<noteq> [] \<and> set p \<subseteq> dot_chars)" by blast
  qed
  show "yields (\<lambda>p. p = ''n/a'' \<or> (p \<noteq> [] \<and> set p \<subseteq> dot_chars)) (lit ''n/a'')"
    by (rule yields_mono [OF yields_lit]) simp
qed

lemma iface_groups:
  assumes "i \<in> set (re_finditer iface_pat s)"
  shows "tuple_item i 2 = ''Up'' \<or> tuple_item i 2 = ''Down'' \<or> tuple_item i 2 = ''n/a''"
    and "tuple_item i 3 = ''n/a'' \<or> (tuple_item i 3 \<noteq> [] \<and> set (tuple_item i 3) \<subseteq> dot_chars)"
proof -
  have "\<exists>g. groups i 3 = Some g \<and> (g = ''Up'' \<or> g = ''Down'' \<or> g = ''n/a'')"
    by (rule re_finditer_group [OF assms]) (simp_all add: iface_pat_def yields_status)
  then show "tuple_item i 2 = ''Up'' \<or> tuple_item i 2 = ''Down'' \<or> tuple_item i 2 = ''n/a''"
    by (auto simp: tuple_item_def eval_nat_numeral)
  have "\<exists>g. groups i 4 = Some g \<and> (g = ''n/a'' \<or> (g \<noteq> [] \<and> set g \<subseteq> dot_chars))"
    by (rule re_finditer_group [OF assms]) (simp_all add: iface_pat_def yields_dotted)
  then show "tuple_item i 3 = ''n/a'' \<or> (tuple_item i 3 \<noteq> [] \<and> set (tuple_item i 3) \<subseteq> dot_chars)"
    by (auto simp: tuple_item_def eval_nat_numeral)
qed

lemma parse_interfaces_total:
  "holds (\<lambda>n. interfaces n = map make_iface (re_finditer iface_pat s)
            \<and> (re_search lan_pat s = None \<longrightarrow>
                 ip_address n = Some ''Unknown'' \<and> netmask n = Some ''Unknown''))
     (parse_interfaces s)"
  by (cases "re_search lan_pat s")
     (simp_all add: parse_interfaces_def on_match_def and_then_def holds_def)






lemmas re_eval = re_search_def lit_def int_group_def str_group_def py_int_def and_then_def
  is_digit_def is_space_def dec_val_def digit_val_def newline_def tuple_item_def
  max_str_digits_def re_finditer.simps re_split.simps

text \<open>
  Claim C1, as the code has it. On \<^verbatim>\<open>1 days 05:34:40\<close> the parser returns
  1 * 86400 + 5 * 3600 + 34 * 60 + 40 = 106480 seconds; on \<^verbatim>\<open>05:34:40\<close> it returns
  20080 seconds; and on every text in which neither the days pattern nor the
  \<^verbatim>\<open>HH:MM:SS\<close> pattern is found it returns 0.
\<close>

theorem parse_uptime_values:
  "parse_uptime ''1 days 05:34:40'' = Inr 106480
   \<and> parse_uptime ''05:34:40'' = Inr 20080
   \<and> (\<forall>s. re_search uptime_days_pat s = None \<and> re_search uptime_hms_pat s = None
          \<longrightarrow> parse_uptime s = Inr 0)"
proof (intro conjI allI impI)
  show "parse_uptime ''1 days 05:34:40'' = Inr 106480"
    by (simp add: parse_uptime_def uptime_days_pat_def re_eval)
  show "parse_uptime ''05:34:40'' = Inr 20080"
    by (simp add: parse_uptime_def uptime_days_pat_def uptime_hms_pat_def re_eval)
  fix s
  assume "re_search uptime_days_pat s = None \<and> re_search uptime_hms_pat s = None"
  then show "parse_uptime s = Inr 0"
    by (simp add: parse_uptime_def)
qed

theorem parse_uptime_values_witness:
  "re_search uptime_days_pat ''up since boot'' = None
   \<and> re_search uptime_hms_pat ''up since boot'' = None
   \<and> parse_uptime ''up since boot'' = Inr 0"
proof -
  have a: "re_search uptime_days_pat ''up since boot'' = None"
    by (simp add: uptime_days_pat_def re_eval)
  have b: "re_search uptime_hms_pat ''up since boot'' = None"
    by (simp add: uptime_hms_pat_def re_eval)
  from parse_uptime_values a b have "parse_uptime ''up since boot'' = Inr 0"
    by blast
  with a b show ?thesis by simp
qed

text \<open>
  Claim C1 as the specification words it gives 105280 seconds for
  \<^verbatim>\<open>1 days 05:34:40\<close>; the parser does not return that.
\<close>

theorem parse_uptime_one_day_counterexample:
  "parse_uptime ''1 days 05:34:40'' \<noteq> Inr 105280"
  by (simp add: parse_uptime_def uptime_days_pat_def re_eval)

lemmas client_eval = parse_clients_def parse_client_block_def set_ssid_def on_match_def
  group_strip_def strip_def has_mac_def no_client_def upper_def to_upper_def index_pat_def
  mac_pat_def ipv4_pat_def display_ssid_pat_def ssid_pat_def security_pat_def rssi_dbm_pat_def
  rssi_pat_def band_pat_def slot_pat_def tx_pat_def rx_pat_def capability_pat_def time_pat_def

text \<open>
  Claim C10. On every text the interface parser returns; its interface list has one
  entry for each tuple \<^verbatim>\<open>re.findall\<close> gives, in order. The status of an entry is the
  third component of its tuple and is one of \<^verbatim>\<open>Up\<close>, \<^verbatim>\<open>Down\<close> and \<^verbatim>\<open>n/a\<close>. Its
  address is \<open>None\<close> exactly when the fourth component is \<^verbatim>\<open>n/a\<close>, and otherwise is
  that component, a text of digits and dots that is not empty.
\<close>

theorem parse_interfaces_entries:
  "\<exists>n. parse_interfaces s = Inr n
     \<and> interfaces n = map make_iface (re_finditer iface_pat s)
     \<and> (\<forall>i \<in> set (re_finditer iface_pat s).
           if_status (make_iface i) = tuple_item i 2
         \<and> if_status (make_iface i) \<in> {''Up'', ''Down'', ''n/a''}
         \<and> (if_ip (make_iface i) = None \<longleftrightarrow> tuple_item i 3 = ''n/a'')
         \<and> (tuple_item i 3 \<noteq> ''n/a'' \<longrightarrow>
               if_ip (make_iface i) = Some (tuple_item i 3) \<and> tuple_item i 3 \<noteq> []
               \<and> set (tuple_item i 3) \<subseteq> set ''0123456789.''))"
proof -
  from parse_interfaces_total [of s] obtain n where
    n: "parse_interfaces s = Inr n" "interfaces n = map make_iface (re_finditer iface_pat s)"
    unfolding holds_def by blast
  have "if_status (make_iface i) = tuple_item i 2
         \<and> if_status (make_iface i) \<in> {''Up'', ''Down'', ''n/a''}
         \<and> (if_ip (make_iface i) = None \<longleftrightarrow> tuple_item i 3 = ''n/a'')
         \<and> (tuple_item i 3 \<noteq> ''n/a'' \<longrightarrow>
               if_ip (make_iface i) = Some (tuple_item i 3) \<and> tuple_item i 3 \<noteq> []
               \<and> set (tuple_item i 3) \<subseteq> set ''0123456789.'')"
    if "i \<in> set (re_finditer iface_pat s)" for i
    using iface_groups [OF that] unfolding dot_chars_def make_iface_def
    by (cases "tuple_item i 3 = ''n/a''") simp_all
  with n show ?thesis by blast
qed

theorem parse_interfaces_entries_witness:
  "map make_iface (re_finditer iface_pat ''1 eth0 Down n/a 2 lan Up 10.0.20.2'')
     = [\<lparr>if_name = ''eth0'', if_status = ''Down'', if_ip = None\<rparr>,
        \<lparr>if_name = ''lan'', if_status = ''Up'', if_ip = Some ''10.0.20.2''\<rparr>]
   \<and> (\<exists>n. parse_interfaces ''1 eth0 Down n/a 2 lan Up 10.0.20.2'' = Inr n
         \<and> interfaces n = [\<lparr>if_name = ''eth0'', if_status = ''Down'', if_ip = None\<rparr>,
              \<lparr>if_name = ''lan'', if_status = ''Up'', if_ip = Some ''10.0.20.2''\<rparr>])"
proof -
  have a: "map make_iface (re_finditer iface_pat ''1 eth0 Down n/a 2 lan Up 10.0.20.2'')
     = [\<lparr>if_name = ''eth0'', if_status = ''Down'', if_ip = None\<rparr>,
        \<lparr>if_name = ''lan'', if_status = ''Up'', if_ip = Some ''10.0.20.2''\<rparr>]"
    by (simp add: iface_pat_def make_iface_def re_eval)
  from parse_interfaces_entries [of "''1 eth0 Down n/a 2 lan Up 10.0.20.2''"]
  obtain n where "parse_interfaces ''1 eth0 Down n/a 2 lan Up 10.0.20.2'' = Inr n"
    "interfaces n = map make_iface (re_finditer iface_pat ''1 eth0 Down n/a 2 lan Up 10.0.20.2'')"
    by blast
  with a show ?thesis by simp
qed

text \<open>
  Claim C6. On the empty text every parser returns its defaults: the three
  \<^verbatim>\<open>Unknown\<close> strings of the version, an uptime of 0, zero CPU figures and no core, a
  memory of 0, no client, \<^verbatim>\<open>Unknown\<close> address and mask and no interface, two inactive
  slots of \<^verbatim>\<open>Unknown\<close> band without SSID, and the port record of \<^verbatim>\<open>Unknown\<close>
  strings and zero counters.
\<close>

theorem parsers_on_empty_text:
  "parse_version '''' = Inr \<lparr>model = ''Unknown'', firmware = ''Unknown'', build_date = ''Unknown''\<rparr>
   \<and> parse_uptime '''' = Inr 0
   \<and> parse_cpu '''' = Inr \<lparr>current = 0, avg_1min = 0, avg_5min = 0, cores = []\<rparr>
   \<and> parse_memory '''' = Inr 0
   \<and> parse_clients '''' = Inr []
   \<and> parse_interfaces '''' =
       Inr \<lparr>ip_address = Some ''Unknown'', netmask = Some ''Unknown'', interfaces = []\<rparr>
   \<and> parse_wlan '''' =
       Inr \<lparr>slot1_active = False, slot1_band = Some ''Unknown'', slot1_ssids = [],
            slot2_active = False, slot2_band = Some ''Unknown'', slot2_ssids = []\<rparr>
   \<and> parse_port_status '''' =
       Inr \<lparr>port_status = Some ''Unknown'', speed = ''Unknown'', tx_bytes = 0, rx_bytes = 0,
            port_tx_rate = 0, port_rx_rate = 0, port_uptime = Some ''Unknown''\<rparr>"
proof (intro conjI)
  show "parse_version '''' =
      Inr \<lparr>model = ''Unknown'', firmware = ''Unknown'', build_date = ''Unknown''\<rparr>"
    by (simp add: parse_version_def on_match_def model_pat_def firmware_pat_def build_pat_def
        re_eval)
  show "parse_uptime '''' = Inr 0"
    by (simp add: parse_uptime_def uptime_days_pat_def uptime_hms_pat_def re_eval)
  show "parse_cpu '''' = Inr \<lparr>current = 0, avg_1min = 0, avg_5min = 0, cores = []\<rparr>"
    by (simp add: parse_cpu_def core_pattern_def core_1min_pattern_def core_5min_pattern_def
        re_eval)
  show "parse_memory '''' = Inr 0"
    by (simp add: parse_memory_def memory_pat_def re_eval)
  show "parse_clients '''' = Inr []"
    by (simp add: parse_clients_def index_pat_def re_eval)
  show "parse_interfaces '''' =
      Inr \<lparr>ip_address = Some ''Unknown'', netmask = Some ''Unknown'', interfaces = []\<rparr>"
    by (simp add: parse_interfaces_def on_match_def lan_pat_def iface_pat_def re_eval)
  show "parse_wlan '''' =
      Inr \<lparr>slot1_active = False, slot1_band = Some ''Unknown'', slot1_ssids = [],
           slot2_active = False, slot2_band = Some ''Unknown'', slot2_ssids = []\<rparr>"
    by (simp add: parse_wlan_def on_match_def slot1_pat_def slot1_block_pat_def slot2_pat_def
        slot2_block_pat_def re_eval)
  show "parse_port_status '''' =
      Inr \<lparr>port_status = Some ''Unknown'', speed = ''Unknown'', tx_bytes = 0, rx_bytes = 0,
           port_tx_rate = 0, port_rx_rate = 0, port_uptime = Some ''Unknown''\<rparr>"
    by (simp add: parse_port_status_def on_match_def port_pat_def re_eval)
qed


text \<open>
  Claim C9. The reboot action calls the command runner once, with \<^verbatim>\<open>reboot\<close>, and
  returns \<open>True\<close> exactly when the runner's answer is not \<open>None\<close>; it returns in every
  case, the runner having turned every exception of the SSH library into \<open>None\<close>.
\<close>

theorem async_reboot_iff:
  "async_reboot e tr = (fst (async_execute_command e tr ''reboot'') \<noteq> None, tr @ [Exec ''reboot''])"
  by (simp add: async_reboot_def async_execute_command_def)

text \<open>
  Claim C8. For either value of the flag, the guest SSID action runs the five commands
  in order, pausing half a second after each, and returns \<open>True\<close>, whatever the
  command runner answers: also on a device where every command fails and the runner
  answers \<open>None\<close> five times. The third command is \<^verbatim>\<open>no ssid-schedule\<close> to enable
  and \<^verbatim>\<open>ssid-schedule\<close> to disable; nothing is read back.
\<close>

theorem async_toggle_guest_ssid_trace:
  "async_toggle_guest_ssid e tr enable =
     (True, tr @ [Exec ''configure terminal'', Sleep 500, Exec ''wlan-ssid-profile Guest'',
        Sleep 500, Exec (if enable then ''no ssid-schedule'' else ''ssid-schedule''), Sleep 500,
        Exec ''exit'', Sleep 500, Exec ''write'', Sleep 500])
   \<and> fst (async_execute_command failing_device t c) = None
   \<and> fst (async_toggle_guest_ssid failing_device tr enable) = True"
  by (simp add: async_toggle_guest_ssid_def guest_commands_def async_execute_command_def
      execute_body_def failing_device_def and_then_def)

lemma no_first:
  "first_char r = Some c \<Longrightarrow> s = [] \<or> hd s \<noteq> c \<Longrightarrow> rmatch r s k = []"
proof (induction r arbitrary: s k)
  case (Atom a)
  then show ?case by (cases a; cases s) auto
next
  case (Seq r1 r2)
  then have "rmatch r1 s k = []" by simp
  then show ?case by simp
next
  case (Group i r)
  then have "rmatch r s k = []" by simp
  then show ?case by simp
qed simp_all

lemma search_from_absent:
  "first_char r = Some c \<Longrightarrow> c \<notin> set s \<Longrightarrow> re_search_from r pre s = None"
proof (induction s arbitrary: pre)
  case Nil
  then show ?case by (simp add: no_first)
next
  case (Cons x s)
  from Cons.prems have "rmatch r (x # s) Map.empty = []" by (intro no_first) auto
  with Cons show ?case by simp
qed

lemma search_absent:
  "(case first_char r of None \<Rightarrow> False | Some c \<Rightarrow> c \<notin> set s) \<Longrightarrow> re_search_from r pre s = None"
  by (cases "first_char r") (auto intro: search_from_absent)

lemma greedy_star_take:
  "in_atom a c \<Longrightarrow>
   take (length (greedy_star a t)) (greedy_star a (replicate n c @ t))
     = map (\<lambda>(p, r). (replicate n c @ p, r)) (greedy_star a t)"
proof (induction n)
  case 0
  show ?case by (simp add: case_prod_beta)
next
  case (Suc n)
  let ?xs = "greedy_star a (replicate n c @ t)"
  from Suc have ih: "take (length (greedy_star a t)) ?xs
      = map (\<lambda>(p, r). (replicate n c @ p, r)) (greedy_star a t)"
    by simp
  then have "length (take (length (greedy_star a t)) ?xs) = length (greedy_star a t)" by simp
  then have le: "length (greedy_star a t) \<le> length ?xs" by simp
  from Suc.prems le have "take (length (greedy_star a t)) (greedy_star a (replicate (Suc n) c @ t))
      = map (\<lambda>(p, r). (c # p, r)) (take (length (greedy_star a t)) ?xs)"
    by (simp add: take_map)
  also have "\<dots> = map (\<lambda>(p, r). (replicate (Suc n) c @ p, r)) (greedy_star a t)"
    unfolding ih by (simp add: case_prod_beta)
  finally show ?case .
qed

lemma star_replicate:
  "in_atom a c \<Longrightarrow>
   greedy_star a (replicate n c @ t)
     = map (\<lambda>(p, r). (replicate n c @ p, r)) (greedy_star a t) @ star_rest a n c t"
  unfolding star_rest_def
  by (subst greedy_star_take [symmetric]) simp_all

lemma star_replicate_end:
  "in_atom a c \<Longrightarrow> greedy_star a (replicate n c) = (replicate n c, []) # star_rest a n c []"
  using star_replicate [of a c n "[]"] by simp

lemmas tail_eval = search_absent star_replicate star_replicate_end






lemma three_core_values: "core_values three_core_block = [10, 20, 30]"
  by (simp add: core_values_def three_core_block_def core_pattern_def re_eval)

lemma short_three_core: "short_numbers three_core_block"
  by (rule short_text) (simp add: three_core_block_def max_str_digits_def)

lemma long_cpu_values: "core_values (long_cpu_text (Suc n)) = [10, 20, 30]"
  by (simp add: long_cpu_text_def core_values_def three_core_block_def core_pattern_def re_eval
      tail_eval)

lemma long_cpu_1min:
  "map (\<lambda>m. tuple_item m 1) (re_finditer core_1min_pattern (long_cpu_text (Suc n)))
     = [replicate (Suc n) CHR ''9'']"
  by (simp add: long_cpu_text_def three_core_block_def core_1min_pattern_def re_eval
      tail_eval)

lemma long_cpu_raises:
  "max_str_digits \<le> n \<Longrightarrow> parse_cpu (long_cpu_text (Suc n)) = Inl ValueError"
  by (simp add: parse_cpu_def average_def py_floordiv_def long_cpu_text_def three_core_block_def
      core_pattern_def core_1min_pattern_def core_5min_pattern_def re_search_def lit_def
      and_then_def is_digit_def is_space_def dec_val_def digit_val_def newline_def
      tuple_item_def re_finditer.simps py_int_def tail_eval list_all_iff)

text \<open>
  Claim C4, as the code has it. On a block of three core lines with the utilizations
  10, 20 and 30 the CPU parser returns 20 as the current value, and so it does on every
  text without a run of more than 4300 digits in which the core pattern finds exactly
  these three utilizations. Whenever the parser returns and the core pattern is found,
  the current value is the sum of the utilizations found divided by their number,
  rounded down, and the core list is these utilizations.
\<close>

theorem parse_cpu_average:
  "(\<exists>v. parse_cpu three_core_block = Inr v \<and> current v = 20)
   \<and> (\<forall>s. short_numbers s \<and> core_values s = [10, 20, 30] \<longrightarrow>
         (\<exists>v. parse_cpu s = Inr v \<and> current v = 20))
   \<and> (\<forall>s v. parse_cpu s = Inr v \<and> core_values s \<noteq> [] \<longrightarrow>
         cores v = core_values s
       \<and> current v = sum_list (core_values s) div int (length (core_values s)))"
proof (intro conjI allI impI)
  from outcome_returns [OF parse_cpu_outcome [of three_core_block] short_three_core]
  show "\<exists>v. parse_cpu three_core_block = Inr v \<and> current v = 20"
    unfolding holds_def three_core_values by auto
next
  fix s assume a: "short_numbers s \<and> core_values s = [10, 20, 30]"
  then have "short_numbers s" ..
  from outcome_returns [OF parse_cpu_outcome [of s] this] a
  show "\<exists>v. parse_cpu s = Inr v \<and> current v = 20"
    unfolding holds_def by auto
next
  fix s v assume a: "parse_cpu s = Inr v \<and> core_values s \<noteq> []"
  then have "parse_cpu s = Inr v" ..
  from outcome_value [OF parse_cpu_outcome [of s] this] a
  show "cores v = core_values s" 
    "current v = sum_list (core_values s) div int (length (core_values s))"
    by simp_all
qed

theorem parse_cpu_average_witness:
  "short_numbers three_core_block \<and> core_values three_core_block = [10, 20, 30]
   \<and> (\<exists>v. parse_cpu three_core_block = Inr v \<and> cores v = [10, 20, 30] \<and> current v = 20)"
proof -
  from parse_cpu_average short_three_core three_core_values
  obtain v where v: "parse_cpu three_core_block = Inr v" "current v = 20"
    by blast
  from parse_cpu_average v(1) three_core_values
  have "cores v = core_values three_core_block"
    by (metis list.distinct(1))
  with v short_three_core three_core_values show ?thesis by simp
qed

text \<open>
  Claim C4 as the specification words it has the parser return 20 on a text with three
  core lines of 10, 20 and 30. When the text also has a one-minute line whose figure
  has 4301 digits, the core pattern finds the three utilizations and the parser raises
  ValueError.
\<close>

theorem parse_cpu_long_counterexample:
  "core_values (three_core_block @ ''CPU core 0 utilization for 1 min: ''
       @ replicate 4301 CHR ''9'' @ '' %'') = [10, 20, 30]
   \<and> parse_cpu (three_core_block @ ''CPU core 0 utilization for 1 min: ''
       @ replicate 4301 CHR ''9'' @ '' %'') = Inl ValueError"
  using long_cpu_values [of 4300] long_cpu_raises [of 4300]
  unfolding long_cpu_text_def by (simp add: max_str_digits_def)

lemma long_slot_split:
  "re_split index_pat (long_slot_text (Suc n))
     = ['''', '' MAC: aa '', '' MAC: bb Slot: '' @ replicate (Suc n) CHR ''9'']"
  by (simp add: long_slot_text_def index_pat_def re_search_def lit_def is_digit_def is_space_def
      re_split.simps tail_eval)

lemma long_slot_macs:
  "re_search mac_pat '' MAC: aa '' \<noteq> None"
  "re_search mac_pat ('' MAC: bb Slot: '' @ replicate (Suc n) CHR ''9'') \<noteq> None"
  by (simp_all add: mac_pat_def re_search_def lit_def is_digit_def is_space_def)

lemma long_slot_first:
  "parse_client_block '' MAC: aa '' = Inr (no_client\<lparr>mac := Some ''AA''\<rparr>)"
  by (simp add: client_eval re_eval)

lemma long_slot_second:
  "max_str_digits \<le> n \<Longrightarrow>
   parse_client_block ('' MAC: bb Slot: '' @ replicate (Suc n) CHR ''9'') = Inl ValueError"
  by (simp add: parse_client_block_def set_ssid_def on_match_def group_strip_def strip_def
      no_client_def upper_def to_upper_def mac_pat_def ipv4_pat_def display_ssid_pat_def
      ssid_pat_def security_pat_def rssi_dbm_pat_def rssi_pat_def band_pat_def slot_pat_def
      re_search_def lit_def int_group_def str_group_def py_int_def and_then_def
      is_digit_def is_space_def newline_def tail_eval list_all_iff)

lemma long_slot_raises:
  assumes "max_str_digits \<le> n"
  shows "parse_clients (long_slot_text (Suc n)) = Inl ValueError"
  using long_slot_second [OF assms]
  by (simp add: parse_clients_def long_slot_split long_slot_first and_then_def has_mac_def
      no_client_def)

lemma filter_has_mac:
  "\<forall>b \<in> set bs. parse_client_block b = Inr (client_of b) \<Longrightarrow>
   filter has_mac (map client_of bs)
     = map client_of (filter (\<lambda>b. re_search mac_pat b \<noteq> None) bs)"
  by (induction bs) (simp_all add: has_mac_iff)

lemma parse_clients_value:
  assumes "parse_clients s = Inr cs"
  shows "cs = filter has_mac (map client_of (drop 1 (re_split index_pat s)))"
    and "\<forall>b \<in> set (drop 1 (re_split index_pat s)). parse_client_block b = Inr (client_of b)"
  using outcome_value [OF parse_clients_outcome [of s] assms] by simp_all

lemma parse_clients_returns: "short_numbers s \<Longrightarrow> \<exists>cs. parse_clients s = Inr cs"
  using outcome_returns [OF parse_clients_outcome [of s]] unfolding holds_def by blast

text \<open>
  Claim C3, as the code has it. Every record the client parser returns holds a MAC
  that is not empty: whenever the parser returns, there is one record for each block in
  which the MAC pattern is found, and none for a block without it. In particular, when
  the text splits at \<^verbatim>\<open>index:\<close> and a number into exactly two blocks (three pieces,
  the first being the text before the first block), there are two records when the
  pattern is found in both blocks and none when it is found in neither. The parser
  returns on every text without a run of more than 4300 digits, and raises nothing but
  the ValueError of \<^verbatim>\<open>int()\<close> on a longer number.
\<close>

theorem parse_clients_mac_blocks:
  "(\<forall>cs. parse_clients s = Inr cs \<longrightarrow>
        (\<forall>c \<in> set cs. \<exists>a. mac c = Some a \<and> a \<noteq> [])
      \<and> length cs = length (filter (\<lambda>b. re_search mac_pat b \<noteq> None)
                                   (drop 1 (re_split index_pat s)))
      \<and> (\<forall>pre b1 b2. re_split index_pat s = [pre, b1, b2] \<longrightarrow>
           (re_search mac_pat b1 \<noteq> None \<and> re_search mac_pat b2 \<noteq> None \<longrightarrow> length cs = 2)
           \<and> (re_search mac_pat b1 = None \<and> re_search mac_pat b2 = None \<longrightarrow> cs = [])))
   \<and> (short_numbers s \<longrightarrow> (\<exists>cs. parse_clients s = Inr cs))
   \<and> (\<forall>e. parse_clients s = Inl e \<longrightarrow> e = ValueError \<and> \<not> short_numbers s)"
proof (intro conjI allI impI ballI)
  fix cs c assume "parse_clients s = Inr cs" and "c \<in> set cs"
  with parse_clients_value(1) have "has_mac c" by fastforce
  then show "\<exists>a. mac c = Some a \<and> a \<noteq> []"
    by (cases "mac c") (simp_all add: has_mac_def)
next
  fix cs assume r: "parse_clients s = Inr cs"
  from filter_has_mac [OF parse_clients_value(2) [OF r]] parse_clients_value(1) [OF r]
  show "length cs = length (filter (\<lambda>b. re_search mac_pat b \<noteq> None)
                                   (drop 1 (re_split index_pat s)))"
    by simp
next
  fix cs pre b1 b2
  assume r: "parse_clients s = Inr cs" and "re_split index_pat s = [pre, b1, b2]"
    and "re_search mac_pat b1 \<noteq> None \<and> re_search mac_pat b2 \<noteq> None"
  with filter_has_mac [OF parse_clients_value(2) [OF r]] parse_clients_value(1) [OF r]
  show "length cs = 2" by simp
next
  fix cs pre b1 b2
  assume r: "parse_clients s = Inr cs" and "re_split index_pat s = [pre, b1, b2]"
    and "re_search mac_pat b1 = None \<and> re_search mac_pat b2 = None"
  with filter_has_mac [OF parse_clients_value(2) [OF r]] parse_clients_value(1) [OF r]
  show "cs = []" by simp
next
  assume "short_numbers s"
  then show "\<exists>cs. parse_clients s = Inr cs" by (rule parse_clients_returns)
next
  fix e assume "parse_clients s = Inl e"
  with outcome_error [OF parse_clients_outcome [of s]]
  show "e = ValueError" "\<not> short_numbers s" by blast+
qed

theorem parse_clients_mac_blocks_witness:
  "short_numbers ''index: 1 MAC: a4:e5 index: 2 MAC: 0B:1c''
   \<and> re_split index_pat ''index: 1 MAC: a4:e5 index: 2 MAC: 0B:1c'' = ['''', '' MAC: a4:e5 '', '' MAC: 0B:1c'']
   \<and> re_search mac_pat '' MAC: a4:e5 '' \<noteq> None \<and> re_search mac_pat '' MAC: 0B:1c'' \<noteq> None
   \<and> (\<exists>cs. parse_clients ''index: 1 MAC: a4:e5 index: 2 MAC: 0B:1c'' = Inr cs \<and> length cs = 2)
   \<and> short_numbers ''index: 1 IPv4: 10.0.0.1 index: 2 Slot: 1''
   \<and> re_split index_pat ''index: 1 IPv4: 10.0.0.1 index: 2 Slot: 1'' = ['''', '' IPv4: 10.0.0.1 '', '' Slot: 1'']
   \<and> re_search mac_pat '' IPv4: 10.0.0.1 '' = None \<and> re_search mac_pat '' Slot: 1'' = None
   \<and> parse_clients ''index: 1 IPv4: 10.0.0.1 index: 2 Slot: 1'' = Inr []"
proof -
  have s: "short_numbers ''index: 1 MAC: a4:e5 index: 2 MAC: 0B:1c''"
    "short_numbers ''index: 1 IPv4: 10.0.0.1 index: 2 Slot: 1''"
    by (rule short_text, simp add: max_str_digits_def)+
  have a: "re_split index_pat ''index: 1 MAC: a4:e5 index: 2 MAC: 0B:1c''
      = ['''', '' MAC: a4:e5 '', '' MAC: 0B:1c'']"
    by (simp add: index_pat_def re_eval)
  have b: "re_search mac_pat '' MAC: a4:e5 '' \<noteq> None" "re_search mac_pat '' MAC: 0B:1c'' \<noteq> None"
    by (simp_all add: mac_pat_def re_eval)
  have c: "re_split index_pat ''index: 1 IPv4: 10.0.0.1 index: 2 Slot: 1''
      = ['''', '' IPv4: 10.0.0.1 '', '' Slot: 1'']"
    by (simp add: index_pat_def re_eval)
  have d: "re_search mac_pat '' IPv4: 10.0.0.1 '' = None" "re_search mac_pat '' Slot: 1'' = None"
    by (simp_all add: mac_pat_def re_eval)
  from parse_clients_mac_blocks [of "''index: 1 MAC: a4:e5 index: 2 MAC: 0B:1c''"] s(1)
  obtain cs where cs: "parse_clients ''index: 1 MAC: a4:e5 index: 2 MAC: 0B:1c'' = Inr cs"
    by blast
  with parse_clients_mac_blocks [of "''index: 1 MAC: a4:e5 index: 2 MAC: 0B:1c''"] a b
  have "length cs = 2" by blast
  with cs have e: "\<exists>cs. parse_clients ''index: 1 MAC: a4:e5 index: 2 MAC: 0B:1c'' = Inr cs
      \<and> length cs = 2"
    by blast
  from parse_clients_mac_blocks [of "''index: 1 IPv4: 10.0.0.1 index: 2 Slot: 1''"] s(2)
  obtain ds where ds: "parse_clients ''index: 1 IPv4: 10.0.0.1 index: 2 Slot: 1'' = Inr ds"
    by blast
  with parse_clients_mac_blocks [of "''index: 1 IPv4: 10.0.0.1 index: 2 Slot: 1''"] c d
  have "ds = []" by blast
  with ds have f: "parse_clients ''index: 1 IPv4: 10.0.0.1 index: 2 Slot: 1'' = Inr []"
    by simp
  from s a b c d e f show ?thesis by blast
qed

text \<open>
  Claim C3 as the specification words it has the parser return two records on every
  text of two blocks that both hold a MAC. When the second block also has a slot number
  of 4301 digits, the text splits into two blocks, the MAC pattern is found in both, and
  the parser raises ValueError instead of returning a list.
\<close>

theorem parse_clients_long_counterexample:
  "re_split index_pat (''index: 1 MAC: aa index: 2 MAC: bb Slot: '' @ replicate 4301 CHR ''9'')
     = ['''', '' MAC: aa '', '' MAC: bb Slot: '' @ replicate 4301 CHR ''9'']
   \<and> re_search mac_pat '' MAC: aa '' \<noteq> None
   \<and> re_search mac_pat ('' MAC: bb Slot: '' @ replicate 4301 CHR ''9'') \<noteq> None
   \<and> parse_clients (''index: 1 MAC: aa index: 2 MAC: bb Slot: '' @ replicate 4301 CHR ''9'')
       = Inl ValueError"
  using long_slot_split [of 4300] long_slot_macs(1) long_slot_macs(2) [of 4300]
    long_slot_raises [of 4300]
  unfolding long_slot_text_def by (simp add: max_str_digits_def)

text \<open>
  Claim C5. In every list the client parser returns, the MAC of each record is the text
  the MAC pattern captured in the record's block, put in upper case: it is left
  unchanged by another \<^verbatim>\<open>upper()\<close>. On the 8-bit text of this model, where
  \<^verbatim>\<open>\d\<close> is the ten digits 0 to 9, it is made of these digits, the letters \<^verbatim>\<open>A\<close> to
  \<^verbatim>\<open>F\<close> and the colon only. The parser returns such a list on every text without a
  run of more than 4300 digits.
\<close>

theorem parse_clients_mac_upper:
  "(\<forall>cs. parse_clients s = Inr cs \<longrightarrow>
      (\<forall>c \<in> set cs. \<exists>b m g. b \<in> set (drop 1 (re_split index_pat s))
            \<and> re_search mac_pat b = Some m \<and> groups m 1 = Some g
            \<and> mac c = Some (upper g) \<and> upper (upper g) = upper g
            \<and> set (upper g) \<subseteq> set ''0123456789ABCDEF:''))
   \<and> (short_numbers s \<longrightarrow> (\<exists>cs. parse_clients s = Inr cs))"
proof (intro conjI allI impI ballI)
  fix cs c assume r: "parse_clients s = Inr cs" and "c \<in> set cs"
  with parse_clients_value(1) [OF r]
  obtain b where b: "b \<in> set (drop 1 (re_split index_pat s))" and c: "c = client_of b"
    and h: "has_mac (client_of b)"
    by auto
  from parse_clients_value(2) [OF r] b have "parse_client_block b = Inr (client_of b)" by blast
  with parse_client_block_cases [of b] have k: "mac (client_of b) = block_mac b" by auto
  with h have "block_mac b \<noteq> None" by (simp add: has_mac_def split: option.splits)
  with block_mac_cases [of b] obtain m g where
    m: "re_search mac_pat b = Some m" "groups m 1 = Some g" "hex_text g"
      "block_mac b = Some (upper g)"
    by auto
  from upper_hex [OF m(3)] have "upper (upper g) = upper g"
    "set (upper g) \<subseteq> set ''0123456789ABCDEF:''"
    unfolding upper_hex_chars_def by blast+
  with b c m k
  show "\<exists>b m g. b \<in> set (drop 1 (re_split index_pat s))
            \<and> re_search mac_pat b = Some m \<and> groups m 1 = Some g
            \<and> mac c = Some (upper g) \<and> upper (upper g) = upper g
            \<and> set (upper g) \<subseteq> set ''0123456789ABCDEF:''"
    by auto
next
  assume "short_numbers s"
  then show "\<exists>cs. parse_clients s = Inr cs" by (rule parse_clients_returns)
qed

theorem parse_clients_mac_upper_witness:
  "short_numbers ''index: 1 MAC: a4:e5:7c:a3:38:8a''
   \<and> map mac (projr (parse_clients ''index: 1 MAC: a4:e5:7c:a3:38:8a'')) = [Some ''A4:E5:7C:A3:38:8A'']
   \<and> upper ''A4:E5:7C:A3:38:8A'' = ''A4:E5:7C:A3:38:8A''"
proof -
  have s: "short_numbers ''index: 1 MAC: a4:e5:7c:a3:38:8a''"
    by (rule short_text) (simp add: max_str_digits_def)
  have a: "parse_clients ''index: 1 MAC: a4:e5:7c:a3:38:8a'' =
    Inr [no_client\<lparr>mac := Some ''A4:E5:7C:A3:38:8A''\<rparr>]"
    by (simp add: client_eval re_eval)
  from parse_clients_mac_upper [of "''index: 1 MAC: a4:e5:7c:a3:38:8a''"] a
  obtain g where "mac (no_client\<lparr>mac := Some ''A4:E5:7C:A3:38:8A''\<rparr>) = Some (upper g)"
    "upper (upper g) = upper g"
    by auto
  then have "upper ''A4:E5:7C:A3:38:8A'' = ''A4:E5:7C:A3:38:8A''" by simp
  with a s show ?thesis by simp
qed

end
